theory Spec2Isabelle
  imports Main "HOL-Library.Sublist" "HOL-Library.Multiset"
begin

section \<open>Data model (types.ts)\<close>

text \<open>
  The three entity interfaces of the application. Identifiers and display strings are
  \<open>string\<close>; the timestamps are the integers returned by \<open>Date.now()\<close>. The optional
  \<open>noteId\<close> of a material is \<open>None\<close> when the property is \<open>undefined\<close>.
\<close>

record Course =
  course_id :: string
  course_name :: string
  description :: string
  color :: string
  createdAt :: int

record Note =
  note_id :: string
  note_courseId :: string
  title :: string
  content :: string
  updatedAt :: int

datatype material_type = Link | File | Reference

record Material =
  material_id :: string
  material_courseId :: string
  noteId :: "string option"
  material_name :: string
  material_type :: material_type
  url :: string
  addedAt :: int

text \<open>
  The component state of \<open>App\<close> that the store operations and the AI handlers read and
  write: the three collections (lines 50-52) and the three AI slots (lines 62-64).
\<close>

record App =
  courses :: "Course list"
  app_notes :: "Note list"
  materials :: "Material list"
  aiLoading :: bool
  aiSummary :: "string option"
  studyQuestions :: "(string \<times> string) list"

definition THEME_COLOR :: string where
  "THEME_COLOR = ''bg-blue-600''"

section \<open>Store operations\<close>

text \<open>
  \<open>handleAddCourse\<close> (lines 111-123). The values drawn from the environment are
  parameters: \<open>uuid\<close> is the result of \<open>crypto.randomUUID()\<close>, \<open>now\<close> the result of
  \<open>Date.now()\<close>, and the two strings are the form fields.
\<close>

definition handleAddCourse :: "string \<Rightarrow> int \<Rightarrow> string \<Rightarrow> string \<Rightarrow> App \<Rightarrow> App" where
  "handleAddCourse uuid now name descr s =
     s\<lparr>courses := courses s @
        [\<lparr>course_id = uuid, course_name = name, description = descr,
          color = THEME_COLOR, createdAt = now\<rparr>]\<rparr>"

text \<open>
  \<open>handleDeleteCourse\<close> (lines 125-133). \<open>confirmed\<close> is the answer of
  \<open>window.confirm\<close>; the three functional updates filter the three collections.
\<close>

definition handleDeleteCourse :: "string \<Rightarrow> bool \<Rightarrow> App \<Rightarrow> App" where
  "handleDeleteCourse cid confirmed s =
     (if confirmed then
        s\<lparr>courses := filter (\<lambda>c. course_id c \<noteq> cid) (courses s),
          app_notes := filter (\<lambda>n. note_courseId n \<noteq> cid) (app_notes s),
          materials := filter (\<lambda>m. material_courseId m \<noteq> cid) (materials s)\<rparr>
      else s)"

text \<open>\<open>handleDeleteMaterial\<close> (lines 135-137).\<close>

definition handleDeleteMaterial :: "string \<Rightarrow> App \<Rightarrow> App" where
  "handleDeleteMaterial mid s =
     s\<lparr>materials := filter (\<lambda>m. material_id m \<noteq> mid) (materials s)\<rparr>"

text \<open>
  \<open>handleSaveNote\<close> (lines 139-158). With an active note the sequence is mapped, replacing
  title, content and timestamp of every note carrying the active note's id; without one a
  new note is appended. \<open>selectedCourseId\<close> is the value behind the non-null assertion of
  line 149.
\<close>

definition handleSaveNote ::
  "Note option \<Rightarrow> string \<Rightarrow> string \<Rightarrow> int \<Rightarrow> string \<Rightarrow> string \<Rightarrow> App \<Rightarrow> App" where
  "handleSaveNote activeNote selectedCourseId uuid now ttl cnt s =
     (case activeNote of
        Some a \<Rightarrow>
          s\<lparr>app_notes := map (\<lambda>n. if note_id n = note_id a
                               then n\<lparr>title := ttl, content := cnt, updatedAt := now\<rparr>
                               else n) (app_notes s)\<rparr>
      | None \<Rightarrow>
          s\<lparr>app_notes := app_notes s @
             [\<lparr>note_id = uuid, note_courseId = selectedCourseId, title = ttl,
               content = cnt, updatedAt = now\<rparr>]\<rparr>)"

text \<open>
  \<open>handleAddMaterial\<close> (lines 160-175); \<open>targetNoteId || undefined\<close> turns both
  \<open>null\<close> and the empty string into \<open>undefined\<close>.
\<close>

definition handleAddMaterial ::
  "string \<Rightarrow> string option \<Rightarrow> string \<Rightarrow> int \<Rightarrow> string \<Rightarrow> string \<Rightarrow> material_type \<Rightarrow> App \<Rightarrow> App" where
  "handleAddMaterial selectedCourseId targetNoteId uuid now name link ty s =
     s\<lparr>materials := materials s @
        [\<lparr>material_id = uuid, material_courseId = selectedCourseId,
          noteId = (case targetNoteId of None \<Rightarrow> None
                    | Some t \<Rightarrow> if t = [] then None else Some t),
          material_name = name, material_type = ty, url = link, addedAt = now\<rparr>]\<rparr>"

text \<open>
  The delete button of a note entry (lines 401-407): after \<open>confirm\<close>, the note sequence
  is filtered by id. Nothing else is set.
\<close>

definition deleteNote :: "string \<Rightarrow> bool \<Rightarrow> App \<Rightarrow> App" where
  "deleteNote nid confirmed s =
     (if confirmed then s\<lparr>app_notes := filter (\<lambda>n. note_id n \<noteq> nid) (app_notes s)\<rparr> else s)"

section \<open>Reordering notes\<close>

text \<open>The second parameter of \<open>handleMoveNote\<close>: \<open>'up' | 'down'\<close>.\<close>

datatype direction = Up | Down

text \<open>
  Reading a JavaScript array at an integer index: the element when the index is within the
  array, \<open>undefined\<close> (here \<open>None\<close>) otherwise, negative indices included.
\<close>

definition js_index :: "'a list \<Rightarrow> int \<Rightarrow> 'a option" where
  "js_index xs i = (if 0 \<le> i \<and> i < int (length xs) then Some (xs ! nat i) else None)"

text \<open>
  Lines 82-85: the \<open>reduce\<close> over the notes with their indices pushes the index of every
  note whose \<open>courseId\<close> is strictly equal to \<open>selectedCourseId\<close> (\<open>string | null\<close>; a
  \<open>null\<close> selection equals no course id).
\<close>

definition courseNotesIndices :: "Note list \<Rightarrow> string option \<Rightarrow> nat list" where
  "courseNotesIndices ns selectedCourseId =
     foldl (\<lambda>acc (n, index). if Some (note_courseId n) = selectedCourseId
                               then acc @ [index] else acc)
       [] (zip ns [0..<length ns])"

text \<open>
  \<open>handleMoveNote\<close> (lines 81-92), for an integer \<open>relativeIndex\<close> (the view passes the
  position of the note in \<open>currentCourseNotes\<close>). The result is the note array after the
  call, slot by slot: \<open>Some n\<close> for a note, \<open>None\<close> for a slot holding \<open>undefined\<close>. Only
  \<open>targetGlobalIndex\<close> is tested against \<open>undefined\<close> (line 88). In the destructuring
  assignment of line 90 the right-hand side is read first (\<open>fromTarget\<close>, \<open>fromGlobal\<close>),
  then \<open>newNotes[globalIndex]\<close> and \<open>newNotes[targetGlobalIndex]\<close> are written in that order.
  When \<open>globalIndex\<close> is \<open>undefined\<close>, \<open>newNotes[undefined]\<close> reads \<open>undefined\<close>, and
  writing it sets a property named "undefined" and changes no array slot.
\<close>

definition handleMoveNote ::
  "Note list \<Rightarrow> string option \<Rightarrow> int \<Rightarrow> direction \<Rightarrow> Note option list" where
  "handleMoveNote ns selectedCourseId relativeIndex dir =
     (let cni = courseNotesIndices ns selectedCourseId;
          globalIndex = js_index cni relativeIndex;
          targetGlobalIndex = (case dir of Up \<Rightarrow> js_index cni (relativeIndex - 1)
                               | Down \<Rightarrow> js_index cni (relativeIndex + 1))
      in case targetGlobalIndex of
           None \<Rightarrow> map Some ns
         | Some t \<Rightarrow>
             (let newNotes = map Some ns;
                  fromTarget = newNotes ! t;
                  fromGlobal = (case globalIndex of None \<Rightarrow> None | Some g \<Rightarrow> newNotes ! g);
                  newNotes1 = (case globalIndex of None \<Rightarrow> newNotes
                               | Some g \<Rightarrow> newNotes[g := fromTarget])
              in newNotes1[t := fromGlobal]))"

text \<open>\<open>currentCourseNotes\<close> (lines 107-109): the notes of the selected course, in store order.\<close>

definition currentCourseNotes :: "Note list \<Rightarrow> string option \<Rightarrow> Note list" where
  "currentCourseNotes ns selectedCourseId =
     filter (\<lambda>n. Some (note_courseId n) = selectedCourseId) ns"

text \<open>Exchanging the values at two positions of a sequence, and the within-course position
  a move aims at.\<close>

definition swapAt :: "nat \<Rightarrow> nat \<Rightarrow> 'a list \<Rightarrow> 'a list" where
  "swapAt i j xs = xs[i := xs ! j, j := xs ! i]"

definition neighbour :: "direction \<Rightarrow> int \<Rightarrow> int" where
  "neighbour dir relativeIndex = (case dir of Up \<Rightarrow> relativeIndex - 1 | Down \<Rightarrow> relativeIndex + 1)"

section \<open>The filtered course list\<close>

text \<open>
  Strings are sequences of code units; the model covers the code units below 256 (the
  Latin-1 range), one \<open>char\<close> each. In this range \<open>String.prototype.toLowerCase\<close> maps
  A-Z and the accented capitals U+00C0-U+00DE (except the multiplication sign U+00D7) to the
  code unit 32 above and leaves every other code unit alone.
\<close>

definition toLowerCase_unit :: "char \<Rightarrow> char" where
  "toLowerCase_unit c =
     (let n = (of_char c :: nat) in
      if (65 \<le> n \<and> n \<le> 90) \<or> (192 \<le> n \<and> n \<le> 222 \<and> n \<noteq> 215)
      then char_of (n + 32) else c)"

definition toLowerCase :: "string \<Rightarrow> string" where
  "toLowerCase s = map toLowerCase_unit s"

text \<open>
  \<open>String.prototype.trim\<close> removes white space and line terminators from both ends; below
  256 these are TAB, LF, VT, FF, CR, SPACE and NBSP.
\<close>

definition js_whitespace :: "char \<Rightarrow> bool" where
  "js_whitespace c = ((of_char c :: nat) \<in> {9, 10, 11, 12, 13, 32, 160})"

definition trim :: "string \<Rightarrow> string" where
  "trim s = rev (dropWhile js_whitespace (rev (dropWhile js_whitespace s)))"

text \<open>
  \<open>s.includes(q)\<close>: \<open>q\<close> occurs in \<open>s\<close> at some position; the search tries every start
  position from the left.
\<close>

fun js_includes :: "string \<Rightarrow> string \<Rightarrow> bool" where
  "js_includes [] q = (q = [])"
| "js_includes (c # s) q = (prefix q (c # s) \<or> js_includes s q)"

text \<open>
  \<open>filteredCourses\<close> (lines 94-101). The empty string is the only falsy string, so
  \<open>!cleanQuery\<close> is \<open>cleanQuery = []\<close>.
\<close>

definition filteredCourses :: "string \<Rightarrow> Course list \<Rightarrow> Course list" where
  "filteredCourses searchQuery cs =
     (let cleanQuery = trim (toLowerCase searchQuery) in
      if cleanQuery = [] then cs
      else filter (\<lambda>c. js_includes (toLowerCase (course_name c)) cleanQuery
                      \<or> js_includes (toLowerCase (description c)) cleanQuery) cs)"

text \<open>
  The two notions the specification uses: a query that is empty or consists of white space
  only, and case-insensitive containment of a query in a field.
\<close>

definition whitespace_only :: "string \<Rightarrow> bool" where
  "whitespace_only q = list_all js_whitespace q"

definition contains_ci :: "string \<Rightarrow> string \<Rightarrow> bool" where
  "contains_ci q s = (\<exists>ps ss. toLowerCase s = ps @ toLowerCase q @ ss)"

section \<open>Sequences of store operations\<close>

text \<open>The exceptions of the JavaScript runtime that the modelled code can raise.\<close>

datatype js_error = TypeError | SyntaxError

text \<open>
  One store operation together with everything it reads from outside the store: form
  fields, the selected course or active note, the answer of a confirmation dialog, and the
  values returned by \<open>crypto.randomUUID()\<close> and \<open>Date.now()\<close>.
\<close>

datatype store_op =
    AddCourse string int string string
  | DeleteCourse string bool
  | AddNote string string int string string
  | UpdateNote Note int string string
  | DeleteNote string bool
  | MoveNote "string option" int direction
  | AddMaterial string "string option" string int string string material_type
  | DeleteMaterial string

text \<open>
  Running an operation on the store. Every handler returns the next store, except a move
  that leaves an \<open>undefined\<close> slot: the component then renders with a note array that is
  no \<open>Note[]\<close>, and \<open>currentCourseNotes\<close> (lines 107-109) reads \<open>courseId\<close> of
  \<open>undefined\<close>, a \<open>TypeError\<close> that ends the run.
\<close>

fun apply_op :: "store_op \<Rightarrow> App \<Rightarrow> js_error + App" where
  "apply_op (AddCourse uuid now name descr) s = Inr (handleAddCourse uuid now name descr s)"
| "apply_op (DeleteCourse cid confirmed) s = Inr (handleDeleteCourse cid confirmed s)"
| "apply_op (AddNote sel uuid now ttl cnt) s = Inr (handleSaveNote None sel uuid now ttl cnt s)"
| "apply_op (UpdateNote a now ttl cnt) s = Inr (handleSaveNote (Some a) [] [] now ttl cnt s)"
| "apply_op (DeleteNote nid confirmed) s = Inr (deleteNote nid confirmed s)"
| "apply_op (MoveNote sel r d) s =
     (case those (handleMoveNote (app_notes s) sel r d) of
        Some ns \<Rightarrow> Inr (s\<lparr>app_notes := ns\<rparr>)
      | None \<Rightarrow> Inl TypeError)"
| "apply_op (AddMaterial sel target uuid now name link ty) s =
     Inr (handleAddMaterial sel target uuid now name link ty s)"
| "apply_op (DeleteMaterial mid) s = Inr (handleDeleteMaterial mid s)"

fun run :: "store_op list \<Rightarrow> App \<Rightarrow> js_error + App" where
  "run [] s = Inr s"
| "run (x # xs) s = (case apply_op x s of Inl e \<Rightarrow> Inl e | Inr s' \<Rightarrow> run xs s')"

text \<open>Identifier uniqueness within each of the three collections.\<close>

definition unique_ids :: "App \<Rightarrow> bool" where
  "unique_ids s \<longleftrightarrow> distinct (map course_id (courses s))
     \<and> distinct (map note_id (app_notes s)) \<and> distinct (map material_id (materials s))"

text \<open>
  An add operation draws a fresh id when the value returned by \<open>crypto.randomUUID()\<close> is
  not yet an id of the collection it is added to; a run is fresh when each of its
  operations is, in the store it is applied to.
\<close>

fun draws_fresh :: "store_op \<Rightarrow> App \<Rightarrow> bool" where
  "draws_fresh (AddCourse uuid now name descr) s = (uuid \<notin> set (map course_id (courses s)))"
| "draws_fresh (AddNote sel uuid now ttl cnt) s = (uuid \<notin> set (map note_id (app_notes s)))"
| "draws_fresh (AddMaterial sel target uuid now name link ty) s =
     (uuid \<notin> set (map material_id (materials s)))"
| "draws_fresh _ s = True"

fun fresh_run :: "store_op list \<Rightarrow> App \<Rightarrow> bool" where
  "fresh_run [] s = True"
| "fresh_run (x # xs) s =
     (draws_fresh x s \<and> (case apply_op x s of Inl e \<Rightarrow> True | Inr s' \<Rightarrow> fresh_run xs s'))"

definition empty_store :: App where
  "empty_store = \<lparr>courses = [], app_notes = [], materials = [], aiLoading = False,
     aiSummary = None, studyQuestions = []\<rparr>"

section \<open>AI insight handlers\<close>

text \<open>
  \<open>runAISummary\<close> (lines 188-199) and \<open>runAIQuestions\<close> (lines 201-212) are asynchronous:
  the statements before \<open>await\<close> run when the handler is invoked, the rest when the remote
  call settles. On the single thread of the page the two handlers therefore interleave as
  a sequence of events: an invocation, a resolution with the value of the remote call, or a
  rejection (the \<open>catch\<close> branch only raises an alert). \<open>result || "..."\<close> replaces an
  \<open>undefined\<close> or empty summary text.
\<close>

datatype ai_event =
    SummaryInvoked
  | SummaryResolved "string option"
  | SummaryRejected
  | QuestionsInvoked
  | QuestionsResolved "(string \<times> string) list"
  | QuestionsRejected

fun ai_step :: "ai_event \<Rightarrow> App \<Rightarrow> App" where
  "ai_step SummaryInvoked s = s\<lparr>aiLoading := True, aiSummary := None\<rparr>"
| "ai_step (SummaryResolved result) s =
     s\<lparr>aiSummary := Some (case result of None \<Rightarrow> ''Failed to generate summary.''
                            | Some t \<Rightarrow> if t = [] then ''Failed to generate summary.'' else t),
       aiLoading := False\<rparr>"
| "ai_step SummaryRejected s = s\<lparr>aiLoading := False\<rparr>"
| "ai_step QuestionsInvoked s = s\<lparr>aiLoading := True, studyQuestions := []\<rparr>"
| "ai_step (QuestionsResolved result) s = s\<lparr>studyQuestions := result, aiLoading := False\<rparr>"
| "ai_step QuestionsRejected s = s\<lparr>aiLoading := False\<rparr>"

fun ai_run :: "ai_event list \<Rightarrow> App \<Rightarrow> App" where
  "ai_run [] s = s"
| "ai_run (e # es) s = ai_run es (ai_step e s)"

text \<open>The events of the summary call, and the events that start a call.\<close>

fun is_summary_event :: "ai_event \<Rightarrow> bool" where
  "is_summary_event SummaryInvoked = True"
| "is_summary_event (SummaryResolved result) = True"
| "is_summary_event SummaryRejected = True"
| "is_summary_event _ = False"

fun is_invocation :: "ai_event \<Rightarrow> bool" where
  "is_invocation SummaryInvoked = True"
| "is_invocation QuestionsInvoked = True"
| "is_invocation _ = False"

text \<open>
  The number of summary requests that have been invoked and have not settled yet, counted
  along a sequence of events from \<open>n\<close> pending requests.
\<close>

fun summary_pending :: "ai_event list \<Rightarrow> nat \<Rightarrow> nat" where
  "summary_pending [] n = n"
| "summary_pending (SummaryInvoked # es) n = summary_pending es (Suc n)"
| "summary_pending (SummaryResolved result # es) n = summary_pending es (n - 1)"
| "summary_pending (SummaryRejected # es) n = summary_pending es (n - 1)"
| "summary_pending (e # es) n = summary_pending es n"

section \<open>Persistence: JSON text and local storage\<close>

text \<open>
  The values that \<open>JSON.stringify\<close> and \<open>JSON.parse\<close> exchange. Both functions belong to
  the JavaScript runtime; they are modelled after their definition in ECMA-262 on the
  following fragment: strings over code units below 256, numbers that are integers (as
  \<open>Date.now()\<close> returns) written without fraction or exponent, and objects as lists of
  properties in creation order with keys that are not array indices. \<open>JUndefined\<close> is the
  value of an optional property that was not set.
\<close>

datatype js_value =
    JUndefined
  | JNull
  | JBool bool
  | JNum int
  | JStr string
  | JArr "js_value list"
  | JObj "(string \<times> js_value) list"

text \<open>
  \<open>QuoteJSONString\<close>: the double quote and the backslash are escaped with a backslash,
  the control characters with a short escape have it, the other code units below 32 are
  written as a backslash, the letter u and four lower-case hexadecimal digits, and every other code unit
  stands for itself.
\<close>

definition hex_digit :: "int \<Rightarrow> char" where
  "hex_digit n = ''0123456789abcdef'' ! nat n"

definition quote_unit :: "char \<Rightarrow> string" where
  "quote_unit c =
     (if c = CHR 0x22 then [CHR 0x5C, CHR 0x22]
      else if c = CHR 0x5C then [CHR 0x5C, CHR 0x5C]
      else if c = CHR 0x08 then [CHR 0x5C, CHR ''b'']
      else if c = CHR 0x09 then [CHR 0x5C, CHR ''t'']
      else if c = CHR 0x0A then [CHR 0x5C, CHR ''n'']
      else if c = CHR 0x0C then [CHR 0x5C, CHR ''f'']
      else if c = CHR 0x0D then [CHR 0x5C, CHR ''r'']
      else if (of_char c :: int) < 32 then
        [CHR 0x5C, CHR ''u'', CHR ''0'', CHR ''0'',
         hex_digit (of_char c div 16), hex_digit (of_char c mod 16)]
      else [c])"

definition quote_units :: "string \<Rightarrow> string" where
  "quote_units s = concat (map quote_unit s)"

definition QuoteJSONString :: "string \<Rightarrow> string" where
  "QuoteJSONString s = CHR 0x22 # quote_units s @ [CHR 0x22]"

text \<open>
  Integers are written in decimal, with a minus sign when negative and without leading
  zeros.
\<close>

definition digit_char :: "int \<Rightarrow> char" where
  "digit_char n = char_of (48 + n)"

function show_digits :: "int \<Rightarrow> string" where
  "show_digits i =
     (if i < 10 then [digit_char i] else show_digits (i div 10) @ [digit_char (i mod 10)])"
  by pat_completeness auto
termination
  by (relation "measure nat") auto

declare show_digits.simps [simp del]

definition show_int :: "int \<Rightarrow> string" where
  "show_int i = (if i < 0 then CHR ''-'' # show_digits (- i) else show_digits i)"

text \<open>
  \<open>SerializeJSONProperty\<close>: \<open>undefined\<close> has no serialization; inside an array it is
  written \<open>null\<close>, and a property whose value is \<open>undefined\<close> is left out of its object.
  Elements and members are separated by commas, without white space.
\<close>

fun join_comma :: "string list \<Rightarrow> string" where
  "join_comma [] = []"
| "join_comma [t] = t"
| "join_comma (t # u # ts) = t @ CHR '','' # join_comma (u # ts)"

definition element_text :: "string option \<Rightarrow> string" where
  "element_text r = (case r of None \<Rightarrow> ''null'' | Some t \<Rightarrow> t)"

fun SerializeJSONProperty :: "js_value \<Rightarrow> string option"
  and serialize_elements :: "js_value list \<Rightarrow> string list"
  and serialize_members :: "(string \<times> js_value) list \<Rightarrow> string list"
where
  "SerializeJSONProperty JUndefined = None"
| "SerializeJSONProperty JNull = Some ''null''"
| "SerializeJSONProperty (JBool b) = Some (if b then ''true'' else ''false'')"
| "SerializeJSONProperty (JNum i) = Some (show_int i)"
| "SerializeJSONProperty (JStr s) = Some (QuoteJSONString s)"
| "SerializeJSONProperty (JArr vs) = Some (CHR ''['' # join_comma (serialize_elements vs) @ '']'')"
| "SerializeJSONProperty (JObj ps) = Some (CHR ''{'' # join_comma (serialize_members ps) @ ''}'')"
| "serialize_elements [] = []"
| "serialize_elements (v # vs) =
     element_text (SerializeJSONProperty v) # serialize_elements vs"
| "serialize_members [] = []"
| "serialize_members ((k, v) # ps) =
     (case SerializeJSONProperty v of
        None \<Rightarrow> serialize_members ps
      | Some t \<Rightarrow> (QuoteJSONString k @ CHR '':'' # t) # serialize_members ps)"

text \<open>
  \<open>JSON.stringify(v)\<close> returns \<open>undefined\<close> (\<open>None\<close>) when \<open>v\<close> is \<open>undefined\<close>, and the
  serialization otherwise.
\<close>

definition JSON_stringify :: "js_value \<Rightarrow> string option" where
  "JSON_stringify v = SerializeJSONProperty v"

text \<open>
  The JSON grammar: white space is TAB, LF, CR and SPACE.
\<close>

definition json_ws :: "char \<Rightarrow> bool" where
  "json_ws c = ((of_char c :: int) \<in> {9, 10, 13, 32})"

definition skip_ws :: "string \<Rightarrow> string" where
  "skip_ws s = dropWhile json_ws s"

text \<open>
  The characters of a string up to its closing quote. A backslash introduces one of the
  eight short escapes or the letter u with four hexadecimal digits (code units from 256 on are
  outside the model and rejected); an unescaped control character is an error.
\<close>

definition hex_val :: "char \<Rightarrow> int option" where
  "hex_val c =
     (let n = (of_char c :: int) in
      if 48 \<le> n \<and> n \<le> 57 then Some (n - 48)
      else if 97 \<le> n \<and> n \<le> 102 then Some (n - 87)
      else if 65 \<le> n \<and> n \<le> 70 then Some (n - 55)
      else None)"

definition hex4 :: "char \<Rightarrow> char \<Rightarrow> char \<Rightarrow> char \<Rightarrow> int option" where
  "hex4 a b c d =
     (case (hex_val a, hex_val b, hex_val c, hex_val d) of
        (Some w, Some x, Some y, Some z) \<Rightarrow> Some (((w * 16 + x) * 16 + y) * 16 + z)
      | _ \<Rightarrow> None)"

definition unescape :: "char \<Rightarrow> char option" where
  "unescape e =
     (if e = CHR 0x22 then Some (CHR 0x22)
      else if e = CHR 0x5C then Some (CHR 0x5C)
      else if e = CHR ''/'' then Some (CHR ''/'')
      else if e = CHR ''b'' then Some (CHR 0x08)
      else if e = CHR ''f'' then Some (CHR 0x0C)
      else if e = CHR ''n'' then Some (CHR 0x0A)
      else if e = CHR ''r'' then Some (CHR 0x0D)
      else if e = CHR ''t'' then Some (CHR 0x09)
      else None)"

definition cons_result :: "'a \<Rightarrow> ('a list \<times> string) option \<Rightarrow> ('a list \<times> string) option" where
  "cons_result x r = (case r of None \<Rightarrow> None | Some (xs, rest) \<Rightarrow> Some (x # xs, rest))"

fun parse_chars :: "string \<Rightarrow> (string \<times> string) option" where
  "parse_chars [] = None"
| "parse_chars (c # r) =
     (if c = CHR 0x22 then Some ([], r)
      else if c = CHR 0x5C then
        (case r of
           [] \<Rightarrow> None
         | e # r1 \<Rightarrow>
             if e = CHR ''u'' then
               (case r1 of
                  h1 # h2 # h3 # h4 # r2 \<Rightarrow>
                    (case hex4 h1 h2 h3 h4 of
                       None \<Rightarrow> None
                     | Some n \<Rightarrow> if n < 256 then cons_result (char_of n) (parse_chars r2)
                                 else None)
                | _ \<Rightarrow> None)
             else
               (case unescape e of
                  None \<Rightarrow> None
                | Some d \<Rightarrow> cons_result d (parse_chars r1)))
      else if (of_char c :: int) < 32 then None
      else cons_result c (parse_chars r))"

text \<open>
  A number: an optional minus sign and decimal digits without a leading zero. A fraction
  or an exponent is outside the model and rejected.
\<close>

definition is_digit :: "char \<Rightarrow> bool" where
  "is_digit c = (48 \<le> (of_char c :: int) \<and> (of_char c :: int) \<le> 57)"

definition digits_val :: "string \<Rightarrow> int" where
  "digits_val ds = foldl (\<lambda>a c. 10 * a + (of_char c - 48)) 0 ds"

definition parse_number :: "string \<Rightarrow> (js_value \<times> string) option" where
  "parse_number s =
     (let negative = (s \<noteq> [] \<and> hd s = CHR ''-'');
          s1 = (if negative then tl s else s);
          ds = takeWhile is_digit s1;
          rest = dropWhile is_digit s1
      in if ds = [] then None
         else if hd ds = CHR ''0'' \<and> tl ds \<noteq> [] then None
         else if rest \<noteq> [] \<and> hd rest \<in> {CHR ''.'', CHR ''e'', CHR ''E''} then None
         else Some (JNum (if negative then - digits_val ds else digits_val ds), rest))"

text \<open>
  When a key occurs twice in an object, the property keeps its first position and takes
  the last value.
\<close>

definition add_member ::
  "string \<Rightarrow> js_value \<Rightarrow> (string \<times> js_value) list \<Rightarrow> (string \<times> js_value) list" where
  "add_member k v ps =
     (case map_of ps k of
        None \<Rightarrow> (k, v) # ps
      | Some v' \<Rightarrow> (k, v') # filter (\<lambda>p. fst p \<noteq> k) ps)"

text \<open>
  The recursive-descent parser for values, for the elements of a non-empty array and for
  the members of a non-empty object. Each returns what it has parsed and the rest of the
  text. The first argument bounds the number of nested calls; \<open>JSON_parse\<close> passes more
  than the length of the text, and every call consumes a character before it descends.
\<close>

fun parse_value :: "nat \<Rightarrow> string \<Rightarrow> (js_value \<times> string) option"
  and parse_elements :: "nat \<Rightarrow> string \<Rightarrow> (js_value list \<times> string) option"
  and parse_members :: "nat \<Rightarrow> string \<Rightarrow> ((string \<times> js_value) list \<times> string) option"
where
  "parse_value 0 s = None"
| "parse_value (Suc n) s =
     (case skip_ws s of
        [] \<Rightarrow> None
      | c # r \<Rightarrow>
          if c = CHR ''['' then
            (case skip_ws r of
               [] \<Rightarrow> None
             | c1 # r1 \<Rightarrow>
                 if c1 = CHR '']'' then Some (JArr [], r1)
                 else (case parse_elements n r of
                         None \<Rightarrow> None
                       | Some (vs, r2) \<Rightarrow> Some (JArr vs, r2)))
          else if c = CHR ''{'' then
            (case skip_ws r of
               [] \<Rightarrow> None
             | c1 # r1 \<Rightarrow>
                 if c1 = CHR ''}'' then Some (JObj [], r1)
                 else (case parse_members n r of
                         None \<Rightarrow> None
                       | Some (ps, r2) \<Rightarrow> Some (JObj ps, r2)))
          else if c = CHR 0x22 then
            (case parse_chars r of None \<Rightarrow> None | Some (str, r1) \<Rightarrow> Some (JStr str, r1))
          else if c = CHR ''-'' \<or> is_digit c then parse_number (c # r)
          else if take 4 (c # r) = ''null'' then Some (JNull, drop 4 (c # r))
          else if take 4 (c # r) = ''true'' then Some (JBool True, drop 4 (c # r))
          else if take 5 (c # r) = ''false'' then Some (JBool False, drop 5 (c # r))
          else None)"
| "parse_elements 0 s = None"
| "parse_elements (Suc n) s =
     (case parse_value n s of
        None \<Rightarrow> None
      | Some (v, r) \<Rightarrow>
          (case skip_ws r of
             [] \<Rightarrow> None
           | c # r1 \<Rightarrow>
               if c = CHR '','' then cons_result v (parse_elements n r1)
               else if c = CHR '']'' then Some ([v], r1)
               else None))"
| "parse_members 0 s = None"
| "parse_members (Suc n) s =
     (case skip_ws s of
        [] \<Rightarrow> None
      | c # r \<Rightarrow>
          if c \<noteq> CHR 0x22 then None
          else
            (case parse_chars r of
               None \<Rightarrow> None
             | Some (k, r1) \<Rightarrow>
                 (case skip_ws r1 of
                    [] \<Rightarrow> None
                  | c1 # r2 \<Rightarrow>
                      if c1 \<noteq> CHR '':'' then None
                      else
                        (case parse_value n r2 of
                           None \<Rightarrow> None
                         | Some (v, r3) \<Rightarrow>
                             (case skip_ws r3 of
                                [] \<Rightarrow> None
                              | c3 # r4 \<Rightarrow>
                                  if c3 = CHR '','' then
                                    (case parse_members n r4 of
                                       None \<Rightarrow> None
                                     | Some (ps, r5) \<Rightarrow> Some (add_member k v ps, r5))
                                  else if c3 = CHR ''}'' then Some ([(k, v)], r4)
                                  else None)))))"

text \<open>
  \<open>JSON.parse(s)\<close>: a value followed by white space only, and a \<open>SyntaxError\<close> otherwise.
\<close>

definition JSON_parse :: "string \<Rightarrow> js_error + js_value" where
  "JSON_parse s =
     (case parse_value (Suc (length s)) s of
        None \<Rightarrow> Inl SyntaxError
      | Some (v, rest) \<Rightarrow> if skip_ws rest = [] then Inr v else Inl SyntaxError)"

text \<open>
  What a value looks like after \<open>JSON.parse(JSON.stringify(v))\<close>: properties holding
  \<open>undefined\<close> are gone and \<open>undefined\<close> array elements are \<open>null\<close>.
\<close>

fun json_image :: "js_value \<Rightarrow> js_value"
  and image_elements :: "js_value list \<Rightarrow> js_value list"
  and image_members :: "(string \<times> js_value) list \<Rightarrow> (string \<times> js_value) list"
where
  "json_image JUndefined = JNull"
| "json_image JNull = JNull"
| "json_image (JBool b) = JBool b"
| "json_image (JNum i) = JNum i"
| "json_image (JStr s) = JStr s"
| "json_image (JArr vs) = JArr (image_elements vs)"
| "json_image (JObj ps) = JObj (image_members ps)"
| "image_elements [] = []"
| "image_elements (v # vs) = json_image v # image_elements vs"
| "image_members [] = []"
| "image_members ((k, v) # ps) =
     (if v = JUndefined then image_members ps else (k, json_image v) # image_members ps)"

text \<open>
  The property names of an object are pairwise distinct, in the value and in all its parts.
\<close>

fun distinct_keys :: "js_value \<Rightarrow> bool"
  and distinct_keys_elements :: "js_value list \<Rightarrow> bool"
  and distinct_keys_members :: "(string \<times> js_value) list \<Rightarrow> bool"
where
  "distinct_keys JUndefined = True"
| "distinct_keys JNull = True"
| "distinct_keys (JBool b) = True"
| "distinct_keys (JNum i) = True"
| "distinct_keys (JStr s) = True"
| "distinct_keys (JArr vs) = distinct_keys_elements vs"
| "distinct_keys (JObj ps) = (distinct (map fst ps) \<and> distinct_keys_members ps)"
| "distinct_keys_elements [] = True"
| "distinct_keys_elements (v # vs) = (distinct_keys v \<and> distinct_keys_elements vs)"
| "distinct_keys_members [] = True"
| "distinct_keys_members ((k, v) # ps) = (distinct_keys v \<and> distinct_keys_members ps)"

text \<open>
  The number of values that are written out when a value is serialized; this many nested
  calls the parser needs to read it back.
\<close>

fun nodes :: "js_value \<Rightarrow> nat"
  and nodes_elements :: "js_value list \<Rightarrow> nat"
  and nodes_members :: "(string \<times> js_value) list \<Rightarrow> nat"
where
  "nodes JUndefined = 1"
| "nodes JNull = 1"
| "nodes (JBool b) = 1"
| "nodes (JNum i) = 1"
| "nodes (JStr s) = 1"
| "nodes (JArr vs) = Suc (nodes_elements vs)"
| "nodes (JObj ps) = Suc (nodes_members ps)"
| "nodes_elements [] = 0"
| "nodes_elements (v # vs) = Suc (nodes v + nodes_elements vs)"
| "nodes_members [] = 0"
| "nodes_members ((k, v) # ps) =
     (if v = JUndefined then nodes_members ps else Suc (nodes v + nodes_members ps))"

text \<open>
  What may follow a complete value inside a text: nothing, a comma, or a closing bracket
  or brace.
\<close>

definition ok_rest :: "string \<Rightarrow> bool" where
  "ok_rest rest = (rest = [] \<or> hd rest \<in> {CHR '','', CHR '']'', CHR ''}''})"

text \<open>
  The objects the handlers create (lines 114-120, 147-153 and 163-171), with their
  properties in the order of the object literals. The optional \<open>noteId\<close> of a material is
  present in the literal and holds \<open>undefined\<close> when no note was targeted.
\<close>

definition course_value :: "Course \<Rightarrow> js_value" where
  "course_value c =
     JObj [(''id'', JStr (course_id c)), (''name'', JStr (course_name c)),
           (''description'', JStr (description c)), (''color'', JStr (color c)),
           (''createdAt'', JNum (createdAt c))]"

definition note_value :: "Note \<Rightarrow> js_value" where
  "note_value n =
     JObj [(''id'', JStr (note_id n)), (''courseId'', JStr (note_courseId n)),
           (''title'', JStr (title n)), (''content'', JStr (content n)),
           (''updatedAt'', JNum (updatedAt n))]"

fun material_type_name :: "material_type \<Rightarrow> string" where
  "material_type_name Link = ''Link''"
| "material_type_name File = ''File''"
| "material_type_name Reference = ''Reference''"

definition material_value :: "Material \<Rightarrow> js_value" where
  "material_value m =
     JObj [(''id'', JStr (material_id m)), (''courseId'', JStr (material_courseId m)),
           (''noteId'', case noteId m of None \<Rightarrow> JUndefined | Some n \<Rightarrow> JStr n),
           (''name'', JStr (material_name m)), (''url'', JStr (url m)),
           (''type'', JStr (material_type_name (material_type m))),
           (''addedAt'', JNum (addedAt m))]"

text \<open>
  Reading a parsed value at the interface types of \<open>types.ts\<close>: \<open>v[k]\<close> is the value of
  property \<open>k\<close>, or \<open>undefined\<close>; a course, note or material is read field by field, and
  the reading is \<open>None\<close> when a field does not have the declared type.
\<close>

definition get_prop :: "js_value \<Rightarrow> string \<Rightarrow> js_value" where
  "get_prop v k =
     (case v of
        JObj ps \<Rightarrow> (case map_of ps k of None \<Rightarrow> JUndefined | Some x \<Rightarrow> x)
      | _ \<Rightarrow> JUndefined)"

fun as_string :: "js_value \<Rightarrow> string option" where
  "as_string (JStr s) = Some s"
| "as_string _ = None"

fun as_number :: "js_value \<Rightarrow> int option" where
  "as_number (JNum i) = Some i"
| "as_number _ = None"

fun as_optional_string :: "js_value \<Rightarrow> string option option" where
  "as_optional_string JUndefined = Some None"
| "as_optional_string (JStr s) = Some (Some s)"
| "as_optional_string _ = None"

definition as_material_type :: "js_value \<Rightarrow> material_type option" where
  "as_material_type v =
     (if v = JStr ''Link'' then Some Link
      else if v = JStr ''File'' then Some File
      else if v = JStr ''Reference'' then Some Reference
      else None)"

definition as_Course :: "js_value \<Rightarrow> Course option" where
  "as_Course v =
     (case as_string (get_prop v ''id'') of None \<Rightarrow> None | Some i \<Rightarrow>
      case as_string (get_prop v ''name'') of None \<Rightarrow> None | Some n \<Rightarrow>
      case as_string (get_prop v ''description'') of None \<Rightarrow> None | Some d \<Rightarrow>
      case as_string (get_prop v ''color'') of None \<Rightarrow> None | Some c \<Rightarrow>
      case as_number (get_prop v ''createdAt'') of None \<Rightarrow> None | Some t \<Rightarrow>
        Some \<lparr>course_id = i, course_name = n, description = d, color = c, createdAt = t\<rparr>)"

definition as_Note :: "js_value \<Rightarrow> Note option" where
  "as_Note v =
     (case as_string (get_prop v ''id'') of None \<Rightarrow> None | Some i \<Rightarrow>
      case as_string (get_prop v ''courseId'') of None \<Rightarrow> None | Some c \<Rightarrow>
      case as_string (get_prop v ''title'') of None \<Rightarrow> None | Some t \<Rightarrow>
      case as_string (get_prop v ''content'') of None \<Rightarrow> None | Some b \<Rightarrow>
      case as_number (get_prop v ''updatedAt'') of None \<Rightarrow> None | Some u \<Rightarrow>
        Some \<lparr>note_id = i, note_courseId = c, title = t, content = b, updatedAt = u\<rparr>)"

definition as_Material :: "js_value \<Rightarrow> Material option" where
  "as_Material v =
     (case as_string (get_prop v ''id'') of None \<Rightarrow> None | Some i \<Rightarrow>
      case as_string (get_prop v ''courseId'') of None \<Rightarrow> None | Some c \<Rightarrow>
      case as_optional_string (get_prop v ''noteId'') of None \<Rightarrow> None | Some n \<Rightarrow>
      case as_string (get_prop v ''name'') of None \<Rightarrow> None | Some l \<Rightarrow>
      case as_material_type (get_prop v ''type'') of None \<Rightarrow> None | Some ty \<Rightarrow>
      case as_string (get_prop v ''url'') of None \<Rightarrow> None | Some u \<Rightarrow>
      case as_number (get_prop v ''addedAt'') of None \<Rightarrow> None | Some a \<Rightarrow>
        Some \<lparr>material_id = i, material_courseId = c, noteId = n, material_name = l,
              material_type = ty, url = u, addedAt = a\<rparr>)"

definition as_array :: "(js_value \<Rightarrow> 'a option) \<Rightarrow> js_value \<Rightarrow> 'a list option" where
  "as_array f v = (case v of JArr vs \<Rightarrow> those (map f vs) | _ \<Rightarrow> None)"

text \<open>
  \<open>localStorage\<close>: a map from keys to strings. \<open>getItem\<close> returns \<open>null\<close> (\<open>None\<close>) for a
  key that is not set; \<open>setItem\<close> stores the string form of its second argument (the text
  "undefined" for \<open>undefined\<close>). The quota of the storage is not modelled: \<open>setItem\<close>
  always succeeds.
\<close>

type_synonym storage = "string \<Rightarrow> string option"

definition getItem :: "storage \<Rightarrow> string \<Rightarrow> string option" where
  "getItem st k = st k"

definition setItem :: "string \<Rightarrow> string \<Rightarrow> storage \<Rightarrow> storage" where
  "setItem k v st = st(k \<mapsto> v)"

definition to_item :: "string option \<Rightarrow> string" where
  "to_item r = (case r of None \<Rightarrow> ''undefined'' | Some t \<Rightarrow> t)"

text \<open>
  The saving effect (lines 75-79): each collection is serialized on its own and written
  under its own key.
\<close>

definition save :: "App \<Rightarrow> storage \<Rightarrow> storage" where
  "save s st =
     (let st1 = setItem ''uni_courses''
                  (to_item (JSON_stringify (JArr (map course_value (courses s))))) st;
          st2 = setItem ''uni_notes''
                  (to_item (JSON_stringify (JArr (map note_value (app_notes s))))) st1;
          st3 = setItem ''uni_materials''
                  (to_item (JSON_stringify (JArr (map material_value (materials s))))) st2
      in st3)"

text \<open>
  The loading effect (lines 66-73). The three items are read first. \<open>if (saved)\<close> is
  false for \<open>null\<close> and for the empty string; then the collection keeps its initial value,
  the empty array. Otherwise the item is parsed and the result is stored as it is; a
  \<open>SyntaxError\<close> of \<open>JSON.parse\<close> is not caught and ends the effect before the later items
  are parsed.
\<close>

definition truthy :: "string option \<Rightarrow> bool" where
  "truthy r = (case r of None \<Rightarrow> False | Some b \<Rightarrow> b \<noteq> [])"

definition parse_saved :: "string option \<Rightarrow> js_error + js_value" where
  "parse_saved saved = (if truthy saved then JSON_parse (the saved) else Inr (JArr []))"

definition load :: "storage \<Rightarrow> js_error + (js_value \<times> js_value \<times> js_value)" where
  "load st =
     (let savedCourses = getItem st ''uni_courses'';
          savedNotes = getItem st ''uni_notes'';
          savedMaterials = getItem st ''uni_materials''
      in case parse_saved savedCourses of
           Inl e \<Rightarrow> Inl e
         | Inr cs \<Rightarrow>
             (case parse_saved savedNotes of
                Inl e \<Rightarrow> Inl e
              | Inr ns \<Rightarrow>
                  (case parse_saved savedMaterials of
                     Inl e \<Rightarrow> Inl e
                   | Inr ms \<Rightarrow> Inr (cs, ns, ms))))"

text \<open>The characters a serialized value can start with.\<close>

definition value_start :: "char \<Rightarrow> bool" where
  "value_start c \<longleftrightarrow> c \<in> {CHR ''['', CHR ''{'', CHR 0x22, CHR ''-'', CHR ''n'', CHR ''t'', CHR ''f''}
     \<or> is_digit c"

text \<open>The three keys of the persisted layout.\<close>

definition storage_keys :: "string set" where
  "storage_keys = {''uni_courses'', ''uni_notes'', ''uni_materials''}"


text \<open>
  Referential integrity (invariant I1 of the data model): every note and every material
  carries the id of a course of the store.
\<close>

definition referential_integrity :: "App \<Rightarrow> bool" where
  "referential_integrity s \<longleftrightarrow>
     list_all (\<lambda>n. note_courseId n \<in> set (map course_id (courses s))) (app_notes s)
     \<and> list_all (\<lambda>m. material_courseId m \<in> set (map course_id (courses s))) (materials s)"

text \<open>An example store: two courses, notes of both interleaved, materials of both.\<close>

definition courseA :: Course where
  "courseA = \<lparr>course_id = ''A'', course_name = ''Biology 101'', description = '''',
              color = THEME_COLOR, createdAt = 1000\<rparr>"

definition courseB :: Course where
  "courseB = \<lparr>course_id = ''B'', course_name = ''Algebra'', description = ''Groups and rings'',
              color = THEME_COLOR, createdAt = 1001\<rparr>"

definition N1 :: Note where
  "N1 = \<lparr>note_id = ''n1'', note_courseId = ''A'', title = ''Cell Structure'',
          content = ''membranes'', updatedAt = 2000\<rparr>"

definition N2 :: Note where
  "N2 = \<lparr>note_id = ''n2'', note_courseId = ''A'', title = ''Genetics'',
          content = ''genes'', updatedAt = 2001\<rparr>"

definition N3 :: Note where
  "N3 = \<lparr>note_id = ''n3'', note_courseId = ''A'', title = ''Evolution'',
          content = ''selection'', updatedAt = 2002\<rparr>"

definition NB :: Note where
  "NB = \<lparr>note_id = ''nb'', note_courseId = ''B'', title = ''Groups'',
          content = ''axioms'', updatedAt = 2003\<rparr>"

definition matA :: Material where
  "matA = \<lparr>material_id = ''m1'', material_courseId = ''A'', noteId = Some ''n1'',
            material_name = ''Slides'', material_type = Link,
            url = ''https://example.org/cells'', addedAt = 3000\<rparr>"

definition matB :: Material where
  "matB = \<lparr>material_id = ''m2'', material_courseId = ''B'', noteId = None,
            material_name = ''Syllabus PDF'', material_type = File,
            url = ''/files/syllabus.pdf'', addedAt = 3001\<rparr>"

definition example_store :: App where
  "example_store = \<lparr>courses = [courseA, courseB], app_notes = [N1, NB, N2, N3],
     materials = [matA, matB], aiLoading = False, aiSummary = None, studyQuestions = []\<rparr>"

text \<open>A run that uses every operation, and the store it ends in.\<close>

definition demo_ops :: "store_op list" where
  "demo_ops =
     [AddCourse ''A'' 1000 ''Biology 101'' '''',
      AddNote ''A'' ''n1'' 2000 ''Cell Structure'' ''membranes'',
      AddNote ''A'' ''n2'' 2001 ''Genetics'' ''genes'',
      AddCourse ''B'' 1001 ''Algebra'' ''Groups and rings'',
      AddNote ''B'' ''nb'' 2003 ''Groups'' ''axioms'',
      MoveNote (Some ''A'') 1 Up,
      UpdateNote N1 4000 ''Cells'' ''organelles'',
      AddMaterial ''A'' (Some ''n1'') ''m1'' 3000 ''Slides'' ''https://example.org/cells'' Link,
      AddMaterial ''B'' None ''m2'' 3001 ''Syllabus PDF'' ''/files/syllabus.pdf'' File,
      DeleteNote ''n2'' True,
      DeleteMaterial ''m1'',
      DeleteCourse ''B'' True]"

definition demo_result :: App where
  "demo_result =
     \<lparr>courses = [courseA],
      app_notes = [N1\<lparr>title := ''Cells'', content := ''organelles'', updatedAt := 4000\<rparr>],
      materials = [], aiLoading = False, aiSummary = None, studyQuestions = []\<rparr>"

text \<open>The store after the same id was drawn twice for a course.\<close>

definition collision_result :: App where
  "collision_result =
     \<lparr>courses = [courseA, courseB\<lparr>course_id := ''A''\<rparr>],
      app_notes = [], materials = [], aiLoading = False, aiSummary = None,
      studyQuestions = []\<rparr>"

section \<open>Deleting a note\<close>

text \<open>
  Claim C9. Once confirmed, deleting a note by id leaves exactly the notes with a different
  id, in their order, and does not touch the materials (nor the courses): a material that
  refers to the deleted note through \<open>noteId\<close> stays in the collection as it was.
\<close>

theorem deleteNote_no_cascade:
  "app_notes (deleteNote nid True s) = filter (\<lambda>n. note_id n \<noteq> nid) (app_notes s)
   \<and> (\<forall>n \<in> set (app_notes (deleteNote nid True s)). note_id n \<noteq> nid)
   \<and> subseq (app_notes (deleteNote nid True s)) (app_notes s)
   \<and> materials (deleteNote nid True s) = materials s
   \<and> filter (\<lambda>m. noteId m = Some nid) (materials (deleteNote nid True s)) =
       filter (\<lambda>m. noteId m = Some nid) (materials s)
   \<and> courses (deleteNote nid True s) = courses s"
  by (simp add: deleteNote_def)

theorem deleteNote_no_cascade_witness:
  "app_notes (deleteNote ''n1'' True example_store) = [NB, N2, N3]
   \<and> materials (deleteNote ''n1'' True example_store) = [matA, matB]
   \<and> noteId matA = Some ''n1''"
  using deleteNote_no_cascade [of "''n1''" example_store]
  by (simp add: example_store_def N1_def N2_def N3_def NB_def matA_def)

section \<open>Deleting a course\<close>

text \<open>
  Claim C1. The confirmed delete of course \<open>cid\<close> leaves in each collection exactly the
  entries that do not carry \<open>cid\<close> (as id for courses, as \<open>courseId\<close> for notes and
  materials), in their order: no course with that id and no note or material of that
  course remains, and all others are kept unchanged. If no course has the id, the course
  collection is unchanged, and in a store with referential integrity (every note and every
  material belongs to a course of the store, invariant I1) all three collections are: the
  operation is a no-op. Referential integrity is kept by the delete.
\<close>

theorem deleteCourse_cascade:
  "courses (handleDeleteCourse cid True s) = filter (\<lambda>c. course_id c \<noteq> cid) (courses s)
   \<and> app_notes (handleDeleteCourse cid True s) =
       filter (\<lambda>n. note_courseId n \<noteq> cid) (app_notes s)
   \<and> materials (handleDeleteCourse cid True s) =
       filter (\<lambda>m. material_courseId m \<noteq> cid) (materials s)
   \<and> cid \<notin> course_id ` set (courses (handleDeleteCourse cid True s))
   \<and> cid \<notin> note_courseId ` set (app_notes (handleDeleteCourse cid True s))
   \<and> cid \<notin> material_courseId ` set (materials (handleDeleteCourse cid True s))
   \<and> (cid \<notin> course_id ` set (courses s) \<longrightarrow>
        courses (handleDeleteCourse cid True s) = courses s)
   \<and> (referential_integrity s \<and> cid \<notin> course_id ` set (courses s) \<longrightarrow>
        handleDeleteCourse cid True s = s)
   \<and> (referential_integrity s \<longrightarrow> referential_integrity (handleDeleteCourse cid True s))"
proof -
  have keep: "\<And>f xs. cid \<notin> f ` set xs \<Longrightarrow> filter (\<lambda>x. f x \<noteq> cid) xs = xs"
    by (auto simp: filter_id_conv)
  have cascade: "courses (handleDeleteCourse cid True s) =
        filter (\<lambda>c. course_id c \<noteq> cid) (courses s)
      \<and> app_notes (handleDeleteCourse cid True s) =
        filter (\<lambda>n. note_courseId n \<noteq> cid) (app_notes s)
      \<and> materials (handleDeleteCourse cid True s) =
        filter (\<lambda>m. material_courseId m \<noteq> cid) (materials s)"
    by (simp add: handleDeleteCourse_def)
  have gone: "cid \<notin> course_id ` set (courses (handleDeleteCourse cid True s))
      \<and> cid \<notin> note_courseId ` set (app_notes (handleDeleteCourse cid True s))
      \<and> cid \<notin> material_courseId ` set (materials (handleDeleteCourse cid True s))"
    by (auto simp: handleDeleteCourse_def)
  have same: "cid \<notin> course_id ` set (courses s) \<longrightarrow>
      courses (handleDeleteCourse cid True s) = courses s"
    by (simp add: handleDeleteCourse_def keep)
  have noop: "referential_integrity s \<and> cid \<notin> course_id ` set (courses s) \<longrightarrow>
      handleDeleteCourse cid True s = s"
  proof
    assume a: "referential_integrity s \<and> cid \<notin> course_id ` set (courses s)"
    then have "cid \<notin> note_courseId ` set (app_notes s)"
      and "cid \<notin> material_courseId ` set (materials s)"
      by (auto simp: referential_integrity_def list_all_iff)
    with a show "handleDeleteCourse cid True s = s"
      by (simp add: handleDeleteCourse_def keep)
  qed
  have kept: "referential_integrity s \<longrightarrow> referential_integrity (handleDeleteCourse cid True s)"
    by (auto simp: referential_integrity_def list_all_iff handleDeleteCourse_def)
  from cascade gone same noop kept show ?thesis by blast
qed

theorem deleteCourse_cascade_witness:
  "referential_integrity example_store
   \<and> courses (handleDeleteCourse ''A'' True example_store) = [courseB]
   \<and> app_notes (handleDeleteCourse ''A'' True example_store) = [NB]
   \<and> materials (handleDeleteCourse ''A'' True example_store) = [matB]
   \<and> referential_integrity (handleDeleteCourse ''A'' True example_store)
   \<and> ''Z'' \<notin> course_id ` set (courses example_store)
   \<and> handleDeleteCourse ''Z'' True example_store = example_store"
proof -
  have a: "filter (\<lambda>c. course_id c \<noteq> ''A'') (courses example_store) = [courseB]"
    "filter (\<lambda>n. note_courseId n \<noteq> ''A'') (app_notes example_store) = [NB]"
    "filter (\<lambda>m. material_courseId m \<noteq> ''A'') (materials example_store) = [matB]"
    by (simp_all add: example_store_def courseA_def courseB_def N1_def N2_def N3_def NB_def
        matA_def matB_def)
  have i: "referential_integrity example_store"
    by (simp add: referential_integrity_def example_store_def courseA_def courseB_def N1_def
        N2_def N3_def NB_def matA_def matB_def)
  have z: "''Z'' \<notin> course_id ` set (courses example_store)"
    by (simp add: example_store_def courseA_def courseB_def)
  show ?thesis
    using deleteCourse_cascade [of "''A''" example_store]
      deleteCourse_cascade [of "''Z''" example_store] a i z
    by simp
qed

section \<open>Updating a note\<close>

text \<open>
  Claim C8. Saving the note form while a note is active keeps the length of the note
  sequence; at every position whose note carries the active note's id, the note gets the
  new title, content and timestamp and keeps its id and its course; at every other position
  the note is unchanged. If no note carries that id, the note sequence is unchanged.
  Courses and materials are never touched.
\<close>

theorem updateNote_in_place:
  "length (app_notes (handleSaveNote (Some a) sel uuid now ttl cnt s)) = length (app_notes s)
   \<and> (\<forall>i < length (app_notes s).
        note_id (app_notes s ! i) = note_id a \<longrightarrow>
          app_notes (handleSaveNote (Some a) sel uuid now ttl cnt s) ! i =
            (app_notes s ! i)\<lparr>title := ttl, content := cnt, updatedAt := now\<rparr>
          \<and> note_id (app_notes (handleSaveNote (Some a) sel uuid now ttl cnt s) ! i) = note_id a
          \<and> note_courseId (app_notes (handleSaveNote (Some a) sel uuid now ttl cnt s) ! i) =
              note_courseId (app_notes s ! i))
   \<and> (\<forall>i < length (app_notes s).
        note_id (app_notes s ! i) \<noteq> note_id a \<longrightarrow>
          app_notes (handleSaveNote (Some a) sel uuid now ttl cnt s) ! i = app_notes s ! i)
   \<and> (note_id a \<notin> note_id ` set (app_notes s) \<longrightarrow>
        app_notes (handleSaveNote (Some a) sel uuid now ttl cnt s) = app_notes s)
   \<and> courses (handleSaveNote (Some a) sel uuid now ttl cnt s) = courses s
   \<and> materials (handleSaveNote (Some a) sel uuid now ttl cnt s) = materials s"
proof -
  have keep: "note_id a \<notin> note_id ` set xs \<Longrightarrow>
          map (\<lambda>n. if note_id n = note_id a
                    then n\<lparr>title := ttl, content := cnt, updatedAt := now\<rparr> else n) xs = xs"
    for xs
    by (induction xs) auto
  show ?thesis
    by (simp add: handleSaveNote_def keep)
qed

theorem updateNote_in_place_witness:
  "app_notes (handleSaveNote (Some N2) ''A'' ''unused'' 5000 ''Genetics II'' ''alleles''
       example_store) =
     [N1, NB, N2\<lparr>title := ''Genetics II'', content := ''alleles'', updatedAt := 5000\<rparr>, N3]
   \<and> app_notes (handleSaveNote (Some (N2\<lparr>note_id := ''gone''\<rparr>)) ''A'' ''unused'' 5000
       ''Genetics II'' ''alleles'' example_store) = app_notes example_store"
  using updateNote_in_place [of N2 "''A''" "''unused''" 5000 "''Genetics II''"
      "''alleles''" example_store]
    updateNote_in_place [of "N2\<lparr>note_id := ''gone''\<rparr>" "''A''" "''unused''" 5000
      "''Genetics II''" "''alleles''" example_store]
  by (simp add: handleSaveNote_def example_store_def N1_def N2_def N3_def NB_def)

section \<open>Reordering notes: the swap\<close>

lemma foldl_push:
  "foldl (\<lambda>acc (n, index). if P n then acc @ [index] else acc) acc ps =
     acc @ map snd (filter (\<lambda>p. P (fst p)) ps)"
  by (induction ps arbitrary: acc) (auto split: prod.splits)

lemma zip_upt_filter:
  "map snd (filter (\<lambda>p. P (fst p)) (zip xs [0..<length xs])) =
     filter (\<lambda>i. P (xs ! i)) [0..<length xs]"
proof (induction xs rule: rev_induct)
  case Nil
  show ?case by simp
next
  case (snoc x xs)
  have "filter (\<lambda>i. P ((xs @ [x]) ! i)) [0..<length xs] = filter (\<lambda>i. P (xs ! i)) [0..<length xs]"
    by (rule filter_cong) (auto simp: nth_append)
  with snoc show ?case by (simp add: nth_append)
qed

lemma courseNotesIndices_filter:
  "courseNotesIndices ns sel =
     filter (\<lambda>i. Some (note_courseId (ns ! i)) = sel) [0..<length ns]"
  unfolding courseNotesIndices_def
  using zip_upt_filter [of "\<lambda>n. Some (note_courseId n) = sel" ns]
  by (simp add: foldl_push)

lemma filter_nth_conv:
  "filter P ys = map ((!) ys) (filter (\<lambda>m. P (ys ! m)) [0..<length ys])"
proof -
  have "filter P ys = filter P (map ((!) ys) [0..<length ys])"
    by (simp add: map_nth)
  also have "\<dots> = map ((!) ys) (filter (P \<circ> (!) ys) [0..<length ys])"
    by (rule filter_map)
  finally show ?thesis by (simp add: comp_def)
qed

lemma currentCourseNotes_indices:
  "currentCourseNotes ns sel = map ((!) ns) (courseNotesIndices ns sel)"
  unfolding currentCourseNotes_def courseNotesIndices_filter
  by (rule filter_nth_conv)

lemma view_swap:
  assumes idx: "idx = filter (\<lambda>m. P (xs ! m)) [0..<length xs]"
    and k: "k < length idx" and k': "k' < length idx"
  shows "filter P (xs[idx ! k := xs ! (idx ! k'), idx ! k' := xs ! (idx ! k)]) =
         (filter P xs)[k := filter P xs ! k', k' := filter P xs ! k]"
proof -
  let ?i = "idx ! k" and ?j = "idx ! k'"
  let ?xs' = "xs[?i := xs ! ?j, ?j := xs ! ?i]"
  have mem: "m < length xs \<and> P (xs ! m)" if "m \<in> set idx" for m
    using that idx by auto
  have dist: "distinct idx" using idx by simp
  have i: "?i < length xs" "P (xs ! ?i)" using mem k by auto
  have j: "?j < length xs" "P (xs ! ?j)" using mem k' by auto
  have same: "P (?xs' ! m) = P (xs ! m)" if "m < length xs" for m
    using that i j by (auto simp: nth_list_update)
  have "filter (\<lambda>m. P (?xs' ! m)) [0..<length ?xs'] =
        filter (\<lambda>m. P (xs ! m)) [0..<length xs]"
    by (rule filter_cong) (auto simp: same)
  then have "filter (\<lambda>m. P (?xs' ! m)) [0..<length ?xs'] = idx"
    using idx by simp
  then have l: "filter P ?xs' = map ((!) ?xs') idx"
    using filter_nth_conv [of P ?xs'] by simp
  have r: "filter P xs = map ((!) xs) idx"
    using filter_nth_conv [of P xs] idx by simp
  show ?thesis
    unfolding l r
  proof (rule nth_equalityI)
    show "length (map ((!) ?xs') idx) =
      length ((map ((!) xs) idx)[k := map ((!) xs) idx ! k', k' := map ((!) xs) idx ! k])"
      by simp
  next
    fix l assume "l < length (map ((!) ?xs') idx)"
    then have l: "l < length idx" by simp
    have neq: "idx ! l \<noteq> idx ! k" if "l \<noteq> k"
      using that dist l k by (simp add: nth_eq_iff_index_eq)
    have neq': "idx ! l \<noteq> idx ! k'" if "l \<noteq> k'"
      using that dist l k' by (simp add: nth_eq_iff_index_eq)
    show "map ((!) ?xs') idx ! l =
      (map ((!) xs) idx)[k := map ((!) xs) idx ! k', k' := map ((!) xs) idx ! k] ! l"
      using l k k' i j neq neq' by (auto simp: nth_list_update)
  qed
qed

lemma view_other:
  assumes "i < length xs" "j < length xs" "\<not> Q (xs ! i)" "\<not> Q (xs ! j)"
  shows "filter Q (xs[i := xs ! j, j := xs ! i]) = filter Q xs"
proof -
  let ?xs' = "xs[i := xs ! j, j := xs ! i]"
  let ?idx = "filter (\<lambda>m. Q (xs ! m)) [0..<length xs]"
  have same: "Q (?xs' ! m) = Q (xs ! m)" if "m < length xs" for m
    using that assms by (auto simp: nth_list_update)
  have "filter (\<lambda>m. Q (?xs' ! m)) [0..<length ?xs'] = ?idx"
    by (rule filter_cong) (auto simp: same)
  then have "filter Q ?xs' = map ((!) ?xs') ?idx"
    using filter_nth_conv [of Q ?xs'] by simp
  also have "\<dots> = map ((!) xs) ?idx"
    using assms by (auto simp: nth_list_update)
  also have "\<dots> = filter Q xs"
    by (rule filter_nth_conv [symmetric])
  finally show ?thesis .
qed


lemma courseNotesIndices_bound:
  "k < length (courseNotesIndices ns sel) \<Longrightarrow> courseNotesIndices ns sel ! k < length ns"
proof -
  assume "k < length (courseNotesIndices ns sel)"
  then have "courseNotesIndices ns sel ! k \<in> set (courseNotesIndices ns sel)"
    by simp
  then show ?thesis
    by (simp add: courseNotesIndices_filter)
qed

lemma length_currentCourseNotes:
  "length (currentCourseNotes ns sel) = length (courseNotesIndices ns sel)"
  by (simp add: currentCourseNotes_indices)

lemma handleMoveNote_no_target:
  "js_index (courseNotesIndices ns sel) (neighbour d r) = None \<Longrightarrow>
   handleMoveNote ns sel r d = map Some ns"
  by (cases d) (simp_all add: handleMoveNote_def neighbour_def)

lemma handleMoveNote_both:
  assumes r: "0 \<le> r" "r < int (length (courseNotesIndices ns sel))"
    and t: "0 \<le> neighbour d r" "neighbour d r < int (length (courseNotesIndices ns sel))"
  shows "handleMoveNote ns sel r d =
    map Some (swapAt (courseNotesIndices ns sel ! nat r)
      (courseNotesIndices ns sel ! nat (neighbour d r)) ns)"
proof -
  let ?cni = "courseNotesIndices ns sel"
  have g: "js_index ?cni r = Some (?cni ! nat r)"
    using r by (simp add: js_index_def)
  have tt: "js_index ?cni (neighbour d r) = Some (?cni ! nat (neighbour d r))"
    using t by (simp add: js_index_def)
  have gb: "?cni ! nat r < length ns"
    using r by (intro courseNotesIndices_bound) simp
  have tb: "?cni ! nat (neighbour d r) < length ns"
    using t by (intro courseNotesIndices_bound) simp
  have "handleMoveNote ns sel r d =
      (map Some ns)[?cni ! nat r := map Some ns ! (?cni ! nat (neighbour d r)),
                    ?cni ! nat (neighbour d r) := map Some ns ! (?cni ! nat r)]"
    using g tt by (cases d) (simp_all add: handleMoveNote_def neighbour_def Let_def)
  then show ?thesis
    using gb tb by (simp add: swapAt_def map_update)
qed

text \<open>
  Claim C2. Let \<open>r\<close> be a position within the notes of the selected course. Moving the
  first note up or the last note down changes nothing. Any other move exchanges the global
  slots \<open>i\<close> and \<open>j\<close> of the course's notes at within-course positions \<open>r\<close> and
  \<open>r - 1\<close> (up) or \<open>r + 1\<close> (down): every other slot keeps its note, the selected
  course's view has exactly these two positions exchanged, and the view of every other
  course is unchanged. The witness is the scenario of three notes N1, N2, N3, where moving
  position 2 up gives N1, N3, N2.
\<close>

theorem moveNote_swaps_neighbours:
  assumes "0 \<le> r" and "r < int (length (currentCourseNotes ns sel))"
  shows
    "((d = Up \<and> r = 0) \<or> (d = Down \<and> r = int (length (currentCourseNotes ns sel)) - 1) \<longrightarrow>
        handleMoveNote ns sel r d = map Some ns)
     \<and> (\<not> ((d = Up \<and> r = 0) \<or> (d = Down \<and> r = int (length (currentCourseNotes ns sel)) - 1)) \<longrightarrow>
        (\<exists>i j. i = courseNotesIndices ns sel ! nat r
           \<and> j = courseNotesIndices ns sel ! nat (neighbour d r)
           \<and> i < length ns \<and> j < length ns \<and> i \<noteq> j
           \<and> ns ! i = currentCourseNotes ns sel ! nat r
           \<and> ns ! j = currentCourseNotes ns sel ! nat (neighbour d r)
           \<and> handleMoveNote ns sel r d = map Some (swapAt i j ns)
           \<and> (\<forall>k < length ns. k \<noteq> i \<and> k \<noteq> j \<longrightarrow> handleMoveNote ns sel r d ! k = Some (ns ! k))
           \<and> currentCourseNotes (swapAt i j ns) sel =
               swapAt (nat r) (nat (neighbour d r)) (currentCourseNotes ns sel)
           \<and> (\<forall>c. c \<noteq> sel \<longrightarrow> currentCourseNotes (swapAt i j ns) c = currentCourseNotes ns c)))"
proof (intro conjI impI)
  let ?cni = "courseNotesIndices ns sel"
  have len: "length (currentCourseNotes ns sel) = length ?cni"
    by (rule length_currentCourseNotes)
  {
    assume "(d = Up \<and> r = 0) \<or> (d = Down \<and> r = int (length (currentCourseNotes ns sel)) - 1)"
    then have "js_index ?cni (neighbour d r) = None"
      by (auto simp: js_index_def neighbour_def len)
    then show "handleMoveNote ns sel r d = map Some ns"
      by (rule handleMoveNote_no_target)
  }
  {
    assume "\<not> ((d = Up \<and> r = 0) \<or> (d = Down \<and> r = int (length (currentCourseNotes ns sel)) - 1))"
    with assms have t: "0 \<le> neighbour d r" "neighbour d r < int (length ?cni)"
      and ne: "nat r \<noteq> nat (neighbour d r)"
      by (cases d; simp add: neighbour_def len; linarith)+
    from assms have r: "0 \<le> r" "r < int (length ?cni)"
      by (simp_all add: len)
    let ?i = "?cni ! nat r" and ?j = "?cni ! nat (neighbour d r)"
    have kr: "nat r < length ?cni" and kt: "nat (neighbour d r) < length ?cni"
      using r t by simp_all
    have ib: "?i < length ns" and jb: "?j < length ns"
      using kr kt by (simp_all add: courseNotesIndices_bound)
    have dist: "distinct ?cni"
      by (simp add: courseNotesIndices_filter)
    have neq: "?i \<noteq> ?j"
      using dist kr kt ne by (simp add: nth_eq_iff_index_eq)
    have vi: "ns ! ?i = currentCourseNotes ns sel ! nat r"
      and vj: "ns ! ?j = currentCourseNotes ns sel ! nat (neighbour d r)"
      using kr kt by (simp_all add: currentCourseNotes_indices)
    have mv: "handleMoveNote ns sel r d = map Some (swapAt ?i ?j ns)"
      using r t by (rule handleMoveNote_both)
    have others: "\<forall>k < length ns. k \<noteq> ?i \<and> k \<noteq> ?j \<longrightarrow>
        handleMoveNote ns sel r d ! k = Some (ns ! k)"
      by (simp add: mv swapAt_def)
    have view: "currentCourseNotes (swapAt ?i ?j ns) sel =
        swapAt (nat r) (nat (neighbour d r)) (currentCourseNotes ns sel)"
      unfolding currentCourseNotes_def swapAt_def
      by (rule view_swap [OF _ kr kt]) (simp add: courseNotesIndices_filter)
    have sel_i: "Some (note_courseId (ns ! ?i)) = sel"
      and sel_j: "Some (note_courseId (ns ! ?j)) = sel"
      using nth_mem [OF kr] nth_mem [OF kt] by (simp_all add: courseNotesIndices_filter)
    have other: "\<forall>c. c \<noteq> sel \<longrightarrow>
        currentCourseNotes (swapAt ?i ?j ns) c = currentCourseNotes ns c"
      unfolding currentCourseNotes_def swapAt_def
      using sel_i sel_j by (auto intro!: view_other [OF ib jb])
    show "\<exists>i j. i = ?i \<and> j = ?j \<and> i < length ns \<and> j < length ns \<and> i \<noteq> j
           \<and> ns ! i = currentCourseNotes ns sel ! nat r
           \<and> ns ! j = currentCourseNotes ns sel ! nat (neighbour d r)
           \<and> handleMoveNote ns sel r d = map Some (swapAt i j ns)
           \<and> (\<forall>k < length ns. k \<noteq> i \<and> k \<noteq> j \<longrightarrow> handleMoveNote ns sel r d ! k = Some (ns ! k))
           \<and> currentCourseNotes (swapAt i j ns) sel =
               swapAt (nat r) (nat (neighbour d r)) (currentCourseNotes ns sel)
           \<and> (\<forall>c. c \<noteq> sel \<longrightarrow> currentCourseNotes (swapAt i j ns) c = currentCourseNotes ns c)"
      using ib jb neq vi vj mv others view other by blast
  }
qed

theorem moveNote_swaps_neighbours_witness:
  "(0::int) \<le> 2 \<and> 2 < int (length (currentCourseNotes [N1, N2, N3] (Some ''A'')))
   \<and> handleMoveNote [N1, N2, N3] (Some ''A'') 2 Up = map Some [N1, N3, N2]
   \<and> handleMoveNote [N1, N2, N3] (Some ''A'') 0 Up = map Some [N1, N2, N3]"
proof -
  have c: "currentCourseNotes [N1, N2, N3] (Some ''A'') = [N1, N2, N3]"
    by (simp add: currentCourseNotes_def N1_def N2_def N3_def)
  have i: "courseNotesIndices [N1, N2, N3] (Some ''A'') = [0, 1, 2]"
    by (simp add: courseNotesIndices_def N1_def N2_def N3_def upt_rec)
  have h0: "(0::int) \<le> 0" "0 < int (length (currentCourseNotes [N1, N2, N3] (Some ''A'')))"
    and h2: "(0::int) \<le> 2" "2 < int (length (currentCourseNotes [N1, N2, N3] (Some ''A'')))"
    by (simp_all add: c)
  have a: "handleMoveNote [N1, N2, N3] (Some ''A'') 0 Up = map Some [N1, N2, N3]"
    using moveNote_swaps_neighbours [OF h0, of Up] by simp
  have b: "handleMoveNote [N1, N2, N3] (Some ''A'') 2 Up = map Some [N1, N3, N2]"
    using moveNote_swaps_neighbours [OF h2, of Up]
    by (simp add: c i neighbour_def swapAt_def)
  show ?thesis using a b h2 by simp
qed



text \<open>
  The two calls that the hypothesis leaves out are the ones with a target but no source:
  with three notes in the course, position 3 (one past the last) moved up and position -1
  moved down. Line 88 tests the target only, and the slot of the target ends up holding
  \<open>undefined\<close>. The view makes neither call.
\<close>

lemma handleMoveNote_target_without_source:
  "length (currentCourseNotes [N1, N2, N3] (Some ''A'')) = 3
   \<and> handleMoveNote [N1, N2, N3] (Some ''A'') 3 Up = [Some N1, Some N2, None]
   \<and> handleMoveNote [N1, N2, N3] (Some ''A'') (- 1) Down = [None, Some N2, Some N3]"
  by (simp add: handleMoveNote_def courseNotesIndices_def currentCourseNotes_def js_index_def
      N1_def N2_def N3_def upt_rec)

section \<open>The filtered course list: trimming and matching\<close>

lemma js_includes_iff: "js_includes s q \<longleftrightarrow> (\<exists>ps ss. s = ps @ q @ ss)"
proof (induction s)
  case Nil
  show ?case by auto
next
  case (Cons c s)
  show ?case
  proof
    assume "js_includes (c # s) q"
    then consider "prefix q (c # s)" | "js_includes s q" by auto
    then show "\<exists>ps ss. c # s = ps @ q @ ss"
    proof cases
      case 1
      then obtain ss where "c # s = q @ ss" by (auto simp: prefix_def)
      then have "c # s = [] @ q @ ss" by simp
      then show ?thesis by blast
    next
      case 2
      with Cons obtain ps ss where "s = ps @ q @ ss" by auto
      then have "c # s = (c # ps) @ q @ ss" by simp
      then show ?thesis by blast
    qed
  next
    assume "\<exists>ps ss. c # s = ps @ q @ ss"
    then obtain ps ss where e: "c # s = ps @ q @ ss" by auto
    show "js_includes (c # s) q"
    proof (cases ps)
      case Nil
      with e have "prefix q (c # s)" by (auto simp: prefix_def)
      then show ?thesis by simp
    next
      case (Cons p ps')
      with e have "s = ps' @ q @ ss" by simp
      with Cons.IH have "js_includes s q" by blast
      then show ?thesis by simp
    qed
  qed
qed

lemma js_whitespace_toLowerCase_unit:
  "js_whitespace (toLowerCase_unit c) = js_whitespace c"
  by (auto simp: js_whitespace_def toLowerCase_unit_def Let_def)

lemma dropWhile_toLowerCase:
  "dropWhile js_whitespace (toLowerCase s) = toLowerCase (dropWhile js_whitespace s)"
  by (induction s) (auto simp: toLowerCase_def js_whitespace_toLowerCase_unit)

lemma trim_toLowerCase: "trim (toLowerCase s) = toLowerCase (trim s)"
proof -
  have r: "rev (toLowerCase s) = toLowerCase (rev s)" for s
    by (simp add: toLowerCase_def rev_map)
  show ?thesis
    by (simp add: trim_def dropWhile_toLowerCase r)
qed

lemma trim_empty_iff: "trim s = [] \<longleftrightarrow> whitespace_only s"
proof -
  have "trim s = [] \<longleftrightarrow> dropWhile js_whitespace (rev (dropWhile js_whitespace s)) = []"
    by (simp add: trim_def)
  also have "\<dots> \<longleftrightarrow> (\<forall>c \<in> set (dropWhile js_whitespace s). js_whitespace c)"
    by (simp add: dropWhile_eq_Nil_conv)
  also have "\<dots> \<longleftrightarrow> dropWhile js_whitespace s = []"
  proof
    assume a: "\<forall>c \<in> set (dropWhile js_whitespace s). js_whitespace c"
    show "dropWhile js_whitespace s = []"
    proof (rule ccontr)
      assume "dropWhile js_whitespace s \<noteq> []"
      then have "\<not> js_whitespace (hd (dropWhile js_whitespace s))"
        by (rule hd_dropWhile)
      moreover have "hd (dropWhile js_whitespace s) \<in> set (dropWhile js_whitespace s)"
        using \<open>dropWhile js_whitespace s \<noteq> []\<close> by simp
      ultimately show False using a by blast
    qed
  next
    assume h: "dropWhile js_whitespace s = []"
    show "\<forall>c \<in> set (dropWhile js_whitespace s). js_whitespace c"
      unfolding h by simp
  qed
  also have "\<dots> \<longleftrightarrow> whitespace_only s"
    by (simp add: dropWhile_eq_Nil_conv whitespace_only_def list_all_iff)
  finally show ?thesis .
qed

lemma whitespace_only_toLowerCase: "whitespace_only (toLowerCase s) = whitespace_only s"
  by (simp add: whitespace_only_def toLowerCase_def list_all_iff js_whitespace_toLowerCase_unit)

text \<open>
  Claim C7, as stated: for a query that is not white space only, the result is exactly the
  courses whose name or description contains the query, ignoring case. The query
  \<open>'' bio''\<close> (with a leading space) selects the course named "Biology 101", although
  neither its lower-cased name nor its lower-cased description contains the lower-cased
  query: the source trims the query before matching.
\<close>

theorem filteredCourses_untrimmed_counterexample:
  "\<not> whitespace_only '' bio''
   \<and> filteredCourses '' bio'' [courseA] = [courseA]
   \<and> \<not> js_includes (toLowerCase (course_name courseA)) (toLowerCase '' bio'')
   \<and> \<not> js_includes (toLowerCase (description courseA)) (toLowerCase '' bio'')"
  by code_simp

text \<open>
  Claim C7, amended. A query that is empty or white space only returns the whole course
  list as it is. Any other query returns, in the original order, exactly the courses whose
  name or description contains the query with its leading and trailing white space removed,
  ignoring case; for a query without such white space this is containment of the query
  itself. The result is always a subsequence of the course list, which the function only
  reads.
\<close>

theorem filteredCourses_trimmed_query:
  "(whitespace_only q \<longrightarrow> filteredCourses q cs = cs)
   \<and> (\<not> whitespace_only q \<longrightarrow>
        filteredCourses q cs =
          filter (\<lambda>c. contains_ci (trim q) (course_name c)
                     \<or> contains_ci (trim q) (description c)) cs)
   \<and> (\<not> whitespace_only q \<and> trim q = q \<longrightarrow>
        filteredCourses q cs =
          filter (\<lambda>c. contains_ci q (course_name c) \<or> contains_ci q (description c)) cs)
   \<and> subseq (filteredCourses q cs) cs"
proof -
  have e: "trim (toLowerCase q) = [] \<longleftrightarrow> whitespace_only q"
    by (simp add: trim_empty_iff whitespace_only_toLowerCase)
  have c: "js_includes (toLowerCase s) (trim (toLowerCase q)) = contains_ci (trim q) s" for s
    by (simp add: js_includes_iff contains_ci_def trim_toLowerCase)
  have main: "\<not> whitespace_only q \<Longrightarrow> filteredCourses q cs =
          filter (\<lambda>c. contains_ci (trim q) (course_name c)
                     \<or> contains_ci (trim q) (description c)) cs"
    by (simp add: filteredCourses_def Let_def e c)
  have sub: "subseq (filteredCourses q cs) cs"
    by (simp add: filteredCourses_def Let_def)
  show ?thesis
    using main sub by (auto simp: filteredCourses_def Let_def e)
qed

theorem filteredCourses_trimmed_query_witness:
  "whitespace_only ''  '' \<and> filteredCourses ''  '' [courseA, courseB] = [courseA, courseB]
   \<and> \<not> whitespace_only ''RINGS '' \<and> filteredCourses ''RINGS '' [courseA, courseB] = [courseB]
   \<and> contains_ci (trim ''RINGS '') (description courseB)"
proof -
  have w: "whitespace_only ''  ''" and n: "\<not> whitespace_only ''RINGS ''"
    by code_simp+
  have r: "filteredCourses ''RINGS '' [courseA, courseB] = [courseB]"
    by code_simp
  have a: "filteredCourses ''  '' [courseA, courseB] = [courseA, courseB]"
    using filteredCourses_trimmed_query [of "''  ''" "[courseA, courseB]"] w by blast
  have "filter (\<lambda>c. contains_ci (trim ''RINGS '') (course_name c)
                   \<or> contains_ci (trim ''RINGS '') (description c)) [courseA, courseB] = [courseB]"
    using filteredCourses_trimmed_query [of "''RINGS ''" "[courseA, courseB]"] n r by simp
  moreover have "\<not> contains_ci (trim ''RINGS '') (course_name courseB)"
    unfolding contains_ci_def js_includes_iff [symmetric] by code_simp
  ultimately have "contains_ci (trim ''RINGS '') (description courseB)"
    by (auto split: if_splits)
  with w n r a show ?thesis by simp
qed

section \<open>Identifier uniqueness\<close>

lemma those_map_Some: "those (map Some xs) = Some xs"
  by (induction xs) auto

lemma those_hole: "t < length xs \<Longrightarrow> those (xs[t := None]) = None"
proof (induction xs arbitrary: t)
  case Nil
  then show ?case by simp
next
  case (Cons x xs)
  then show ?case by (cases t) (auto split: option.splits)
qed

lemma js_index_Some: "js_index xs i = Some v \<Longrightarrow> nat i < length xs \<and> v = xs ! nat i"
  by (auto simp: js_index_def split: if_splits)

lemma handleMoveNote_cases:
  "handleMoveNote ns sel r d = map Some ns
   \<or> (\<exists>i j. i < length ns \<and> j < length ns \<and> handleMoveNote ns sel r d = map Some (swapAt i j ns))
   \<or> (\<exists>t < length ns. handleMoveNote ns sel r d = (map Some ns)[t := None])"
proof (cases "js_index (courseNotesIndices ns sel) (neighbour d r)")
  case None
  then show ?thesis by (simp add: handleMoveNote_no_target)
next
  case (Some t)
  from js_index_Some [OF Some] have tb: "t < length ns"
    by (simp add: courseNotesIndices_bound)
  show ?thesis
  proof (cases "js_index (courseNotesIndices ns sel) r")
    case None
    with Some have "handleMoveNote ns sel r d = (map Some ns)[t := None]"
      by (cases d) (simp_all add: handleMoveNote_def neighbour_def)
    with tb show ?thesis by blast
  next
    case (Some g)
    from js_index_Some [OF Some] have gb: "g < length ns"
      by (simp add: courseNotesIndices_bound)
    from Some \<open>js_index (courseNotesIndices ns sel) (neighbour d r) = Some t\<close>
    have "handleMoveNote ns sel r d = (map Some ns)[g := map Some ns ! t, t := map Some ns ! g]"
      by (cases d) (simp_all add: handleMoveNote_def neighbour_def Let_def)
    then have "handleMoveNote ns sel r d = map Some (swapAt g t ns)"
      using gb tb by (simp add: swapAt_def map_update)
    with gb tb show ?thesis by blast
  qed
qed

lemma distinct_ids_swapAt:
  assumes "i < length xs" "j < length xs" "distinct (map f xs)"
  shows "distinct (map f (swapAt i j xs))"
proof -
  have "map f (swapAt i j xs) = (map f xs)[i := map f xs ! j, j := map f xs ! i]"
    using assms by (simp add: swapAt_def map_update)
  moreover have "distinct ((map f xs)[i := map f xs ! j, j := map f xs ! i])"
    using assms by (simp add: distinct_swap del: nth_map)
  ultimately show ?thesis by simp
qed

lemma moveNote_keeps_unique:
  assumes t: "those (handleMoveNote ns sel r d) = Some ns'" and d: "distinct (map note_id ns)"
  shows "distinct (map note_id ns')"
proof -
  consider "handleMoveNote ns sel r d = map Some ns"
    | i j where "i < length ns" "j < length ns"
        "handleMoveNote ns sel r d = map Some (swapAt i j ns)"
    | k where "k < length ns" "handleMoveNote ns sel r d = (map Some ns)[k := None]"
    using handleMoveNote_cases [of ns sel r d] by blast
  then show ?thesis
  proof cases
    case 1
    with t have "ns' = ns" by (simp add: those_map_Some)
    with d show ?thesis by simp
  next
    case 2
    with t have "ns' = swapAt i j ns" by (simp add: those_map_Some)
    with 2 d show ?thesis by (simp add: distinct_ids_swapAt)
  next
    case 3
    then have "those (handleMoveNote ns sel r d) = None"
      by (simp add: those_hole)
    with t show ?thesis by simp
  qed
qed

lemma update_keeps_ids:
  "map note_id (map (\<lambda>n. if note_id n = note_id a
        then n\<lparr>title := ttl, content := cnt, updatedAt := now\<rparr> else n) ns) = map note_id ns"
  by (induction ns) auto

lemma apply_op_keeps_unique:
  assumes u: "unique_ids s" and f: "draws_fresh x s" and a: "apply_op x s = Inr s'"
  shows "unique_ids s'"
proof (cases x)
  case (AddCourse uuid now name descr)
  with u f a show ?thesis
    by (auto simp: unique_ids_def handleAddCourse_def)
next
  case (DeleteCourse cid confirmed)
  with u a show ?thesis
    by (auto simp: unique_ids_def handleDeleteCourse_def distinct_map_filter)
next
  case (AddNote sel uuid now ttl cnt)
  with u f a show ?thesis
    by (auto simp: unique_ids_def handleSaveNote_def)
next
  case (UpdateNote n now ttl cnt)
  with u a show ?thesis
    by (auto simp: unique_ids_def handleSaveNote_def update_keeps_ids simp del: map_map)
next
  case (DeleteNote nid confirmed)
  with u a show ?thesis
    by (auto simp: unique_ids_def deleteNote_def distinct_map_filter)
next
  case (MoveNote sel r d)
  with a obtain ns' where t: "those (handleMoveNote (app_notes s) sel r d) = Some ns'"
    and s': "s' = s\<lparr>app_notes := ns'\<rparr>"
    by (auto split: option.splits)
  from u have "distinct (map note_id (app_notes s))"
    by (simp add: unique_ids_def)
  with t have "distinct (map note_id ns')"
    by (rule moveNote_keeps_unique)
  with u s' show ?thesis
    by (simp add: unique_ids_def)
next
  case (AddMaterial sel target uuid now name link ty)
  with u f a show ?thesis
    by (auto simp: unique_ids_def handleAddMaterial_def)
next
  case (DeleteMaterial mid)
  with u a show ?thesis
    by (auto simp: unique_ids_def handleDeleteMaterial_def distinct_map_filter)
qed

text \<open>
  Claim C6, as stated: uniqueness after any sequence of operations from a store with unique
  ids. The ids come from \<open>crypto.randomUUID()\<close> and are appended without a look at the
  collection: when the same value is drawn twice, two courses share it.
\<close>

theorem ids_collide_counterexample:
  "unique_ids empty_store
   \<and> run [AddCourse ''A'' 1000 ''Biology 101'' '''',
           AddCourse ''A'' 1001 ''Algebra'' ''Groups and rings''] empty_store =
       Inr collision_result
   \<and> \<not> unique_ids collision_result"
  by code_simp

text \<open>
  Claim C6, amended. Starting from a store with unique ids, after any finite sequence of
  store operations in which every id drawn by an add operation is not yet in its
  collection, the ids are unique within courses, within notes and within materials.
\<close>

theorem ids_stay_unique:
  "unique_ids s \<Longrightarrow> fresh_run ops s \<Longrightarrow> run ops s = Inr s' \<Longrightarrow> unique_ids s'"
proof (induction ops arbitrary: s)
  case Nil
  then show ?case by simp
next
  case (Cons x xs)
  from Cons.prems(3) obtain s1 where s1: "apply_op x s = Inr s1" and r: "run xs s1 = Inr s'"
    by (auto split: sum.splits)
  from Cons.prems(2) s1 have f: "draws_fresh x s" and fr: "fresh_run xs s1"
    by auto
  from Cons.prems(1) f s1 have "unique_ids s1"
    by (rule apply_op_keeps_unique)
  then show ?case using fr r by (rule Cons.IH)
qed

theorem ids_stay_unique_witness:
  "unique_ids empty_store \<and> fresh_run demo_ops empty_store
   \<and> run demo_ops empty_store = Inr demo_result \<and> unique_ids demo_result"
proof -
  have u: "unique_ids empty_store" by code_simp
  have f: "fresh_run demo_ops empty_store" by code_simp
  have r: "run demo_ops empty_store = Inr demo_result" by code_simp
  from ids_stay_unique [OF u f r] u f r show ?thesis by simp
qed

section \<open>AI insight handlers: result slots and loading flag\<close>

lemma ai_run_store:
  "courses (ai_run es s) = courses s \<and> app_notes (ai_run es s) = app_notes s
   \<and> materials (ai_run es s) = materials s"
proof (induction es arbitrary: s)
  case Nil
  show ?case by simp
next
  case (Cons e es)
  show ?case by (cases e) (simp_all add: Cons.IH)
qed

lemma summary_slot_projection:
  "aiSummary s = aiSummary s' \<Longrightarrow>
   aiSummary (ai_run es s) = aiSummary (ai_run (filter is_summary_event es) s')"
proof (induction es arbitrary: s s')
  case Nil
  then show ?case by simp
next
  case (Cons e es)
  show ?case
  proof (cases "is_summary_event e")
    case True
    have "aiSummary (ai_step e s) = aiSummary (ai_step e s')"
      using Cons.prems by (cases e) simp_all
    then show ?thesis using True by (simp add: Cons.IH)
  next
    case False
    have "aiSummary (ai_step e s) = aiSummary s'"
      using Cons.prems False by (cases e) simp_all
    then show ?thesis using False by (simp add: Cons.IH)
  qed
qed

lemma questions_slot_projection:
  "studyQuestions s = studyQuestions s' \<Longrightarrow>
   studyQuestions (ai_run es s) =
     studyQuestions (ai_run (filter (\<lambda>e. \<not> is_summary_event e) es) s')"
proof (induction es arbitrary: s s')
  case Nil
  then show ?case by simp
next
  case (Cons e es)
  show ?case
  proof (cases "is_summary_event e")
    case False
    have "studyQuestions (ai_step e s) = studyQuestions (ai_step e s')"
      using Cons.prems by (cases e) simp_all
    then show ?thesis using False by (simp add: Cons.IH)
  next
    case True
    have "studyQuestions (ai_step e s) = studyQuestions s'"
      using Cons.prems True by (cases e) simp_all
    then show ?thesis using True by (simp add: Cons.IH)
  qed
qed

text \<open>
  Claim C10, as stated, gives each call a loading lifecycle of its own that a failure of
  the other call cannot disturb. There is one \<open>aiLoading\<close> flag: after both calls were
  invoked and the questions call failed, the flag is off although the summary request is
  still pending, whereas it is on after the summary invocation alone.
\<close>

theorem ai_shared_loading_counterexample:
  "0 < summary_pending [SummaryInvoked, QuestionsInvoked, QuestionsRejected] 0
   \<and> \<not> aiLoading (ai_run [SummaryInvoked, QuestionsInvoked, QuestionsRejected] example_store)
   \<and> aiLoading (ai_run [SummaryInvoked] example_store)"
  by simp

text \<open>
  Claim C10, amended. The two result slots are independent: an invocation clears its own
  slot at once; along any interleaving, the summary slot is what the summary events alone
  produce and the questions slot is what the questions events alone produce, so no
  invocation, success or failure of one call changes the other call's result. The loading
  state is one flag shared by both calls: after any event it is on exactly when that event
  was an invocation. No event changes courses, notes or materials.
\<close>

theorem ai_result_slots_independent:
  "aiSummary (ai_step SummaryInvoked s) = None
   \<and> studyQuestions (ai_step QuestionsInvoked s) = []
   \<and> aiSummary (ai_run es s) = aiSummary (ai_run (filter is_summary_event es) s)
   \<and> studyQuestions (ai_run es s) =
       studyQuestions (ai_run (filter (\<lambda>e. \<not> is_summary_event e) es) s)
   \<and> aiSummary (ai_step QuestionsRejected s) = aiSummary s
   \<and> studyQuestions (ai_step SummaryRejected s) = studyQuestions s
   \<and> aiLoading (ai_step e s) = is_invocation e
   \<and> courses (ai_run es s) = courses s \<and> app_notes (ai_run es s) = app_notes s
   \<and> materials (ai_run es s) = materials s"
proof -
  have "aiLoading (ai_step e s) = is_invocation e"
    by (cases e) simp_all
  then show ?thesis
    using summary_slot_projection [of s s es] questions_slot_projection [of s s es]
      ai_run_store [of es s]
    by simp
qed

section \<open>Persistence: reading back what was written\<close>

subsection \<open>Strings\<close>

lemma of_char_int_bounds: "0 \<le> (of_char c :: int)" "(of_char c :: int) < 256"
proof -
  have "(of_char c :: int) = int (of_char c)"
    by (simp add: of_char_def horner_sum_eq_sum)
  then show "0 \<le> (of_char c :: int)" "(of_char c :: int) < 256"
    using nat_of_char_less_256 [of c] by simp_all
qed

lemma hex_val_hex_digit:
  assumes "0 \<le> k" "k < 16"
  shows "hex_val (hex_digit k) = Some k"
proof -
  from assms have "k = 0 \<or> k = 1 \<or> k = 2 \<or> k = 3 \<or> k = 4 \<or> k = 5 \<or> k = 6 \<or> k = 7
      \<or> k = 8 \<or> k = 9 \<or> k = 10 \<or> k = 11 \<or> k = 12 \<or> k = 13 \<or> k = 14 \<or> k = 15"
    by arith
  then show ?thesis
    by (auto simp: hex_val_def hex_digit_def)
qed

lemma hex_val_zero: "hex_val CHR ''0'' = Some 0"
  by (simp add: hex_val_def)

lemma parse_chars_unicode_escape:
  assumes "(of_char c :: int) < 32"
  shows "parse_chars (CHR 0x5C # CHR ''u'' # CHR ''0'' # CHR ''0'' #
            hex_digit (of_char c div 16) # hex_digit (of_char c mod 16) # r) =
         cons_result c (parse_chars r)"
proof -
  let ?n = "of_char c :: int"
  have b: "0 \<le> ?n" by (rule of_char_int_bounds)
  have d: "0 \<le> ?n div 16" "?n div 16 < 16" "0 \<le> ?n mod 16" "?n mod 16 < 16"
    using b assms by auto
  have "hex4 CHR ''0'' CHR ''0'' (hex_digit (?n div 16)) (hex_digit (?n mod 16)) =
      Some (?n div 16 * 16 + ?n mod 16)"
    using d by (simp add: hex4_def hex_val_zero hex_val_hex_digit)
  then have h: "hex4 CHR ''0'' CHR ''0'' (hex_digit (?n div 16)) (hex_digit (?n mod 16)) = Some ?n"
    by simp
  have c: "char_of ?n = c" by (rule char_of_char)
  show ?thesis
    using assms by (simp add: h c)
qed

lemma parse_chars_quote_unit:
  "parse_chars (quote_unit c @ r) = cons_result c (parse_chars r)"
proof -
  consider "c = CHR 0x22" | "c = CHR 0x5C" | "c = CHR 0x08" | "c = CHR 0x09" | "c = CHR 0x0A"
    | "c = CHR 0x0C" | "c = CHR 0x0D"
    | "c \<notin> {CHR 0x22, CHR 0x5C, CHR 0x08, CHR 0x09, CHR 0x0A, CHR 0x0C, CHR 0x0D}"
      "(of_char c :: int) < 32"
    | "c \<notin> {CHR 0x22, CHR 0x5C, CHR 0x08, CHR 0x09, CHR 0x0A, CHR 0x0C, CHR 0x0D}"
      "\<not> (of_char c :: int) < 32"
    by blast
  then show ?thesis
  proof cases
    case 8
    then have "quote_unit c = [CHR 0x5C, CHR ''u'', CHR ''0'', CHR ''0'',
         hex_digit (of_char c div 16), hex_digit (of_char c mod 16)]"
      by (simp add: quote_unit_def)
    then show ?thesis
      using parse_chars_unicode_escape [OF 8(2)] by simp
  next
    case 9
    then have "quote_unit c = [c]"
      by (simp add: quote_unit_def)
    then show ?thesis
      using 9 by simp
  qed (simp_all add: quote_unit_def unescape_def)
qed

lemma parse_chars_quote_units:
  "parse_chars (quote_units s @ CHR 0x22 # rest) = Some (s, rest)"
proof (induction s)
  case Nil
  show ?case by (simp add: quote_units_def)
next
  case (Cons c s)
  have "quote_units (c # s) = quote_unit c @ quote_units s"
    by (simp add: quote_units_def)
  then show ?case
    using Cons by (simp add: parse_chars_quote_unit cons_result_def)
qed

subsection \<open>Numbers\<close>

lemma of_char_digit_char:
  assumes "0 \<le> d" "d < 10"
  shows "(of_char (digit_char d) :: int) = 48 + d"
  using assms by (simp add: digit_char_def)

lemma is_digit_digit_char: "0 \<le> d \<Longrightarrow> d < 10 \<Longrightarrow> is_digit (digit_char d)"
  by (simp add: is_digit_def of_char_digit_char)

lemma digits_val_snoc: "digits_val (ds @ [c]) = 10 * digits_val ds + (of_char c - 48)"
  by (simp add: digits_val_def)

lemma show_digits_props:
  "0 \<le> i \<Longrightarrow>
   show_digits i \<noteq> [] \<and> list_all is_digit (show_digits i) \<and> digits_val (show_digits i) = i
   \<and> (hd (show_digits i) = CHR ''0'' \<longrightarrow> tl (show_digits i) = [])"
proof (induction i rule: show_digits.induct)
  case (1 i)
  show ?case
  proof (cases "i < 10")
    case True
    then have s: "show_digits i = [digit_char i]"
      by (simp add: show_digits.simps)
    show ?thesis
      using True "1.prems"
      by (simp add: s is_digit_digit_char digits_val_def of_char_digit_char)
  next
    case False
    then have s: "show_digits i = show_digits (i div 10) @ [digit_char (i mod 10)]"
      by (subst show_digits.simps) simp
    have ih: "show_digits (i div 10) \<noteq> []" "list_all is_digit (show_digits (i div 10))"
      "digits_val (show_digits (i div 10)) = i div 10"
      "hd (show_digits (i div 10)) = CHR ''0'' \<longrightarrow> tl (show_digits (i div 10)) = []"
      using "1.IH" [OF False] "1.prems" by simp_all
    have m: "0 \<le> i mod 10" "i mod 10 < 10" by simp_all
    have nz: "hd (show_digits (i div 10)) \<noteq> CHR ''0''"
    proof
      assume z: "hd (show_digits (i div 10)) = CHR ''0''"
      with ih have "show_digits (i div 10) = [CHR ''0'']"
        by (cases "show_digits (i div 10)") auto
      with ih(3) have "i div 10 = 0"
        by (simp add: digits_val_def)
      with False "1.prems" show False by simp
    qed
    show ?thesis
      using ih m nz
      by (simp add: s is_digit_digit_char digits_val_snoc of_char_digit_char)
  qed
qed

lemma ok_rest_not_digit: "ok_rest (c # r) \<Longrightarrow> \<not> is_digit c"
  by (auto simp: ok_rest_def is_digit_def)

lemma digits_then_rest:
  assumes "list_all is_digit ds" "ok_rest rest"
  shows "takeWhile is_digit (ds @ rest) = ds" "dropWhile is_digit (ds @ rest) = rest"
proof -
  have t: "takeWhile is_digit rest = []" "dropWhile is_digit rest = rest"
    using assms(2) by (cases rest; simp add: ok_rest_not_digit)+
  from assms(1) have a: "\<And>x. x \<in> set ds \<Longrightarrow> is_digit x"
    by (simp add: list_all_iff)
  show "takeWhile is_digit (ds @ rest) = ds"
    using takeWhile_append2 [of ds is_digit rest] a t by simp
  show "dropWhile is_digit (ds @ rest) = rest"
    using dropWhile_append2 [of ds is_digit rest] a t by simp
qed

lemma show_int_head:
  "show_int i \<noteq> [] \<and> (hd (show_int i) = CHR ''-'' \<or> is_digit (hd (show_int i)))"
proof (cases "i < 0")
  case True
  then show ?thesis by (simp add: show_int_def)
next
  case False
  then have "show_digits i \<noteq> []" "list_all is_digit (show_digits i)"
    using show_digits_props [of i] by simp_all
  then have "is_digit (hd (show_digits i))"
    by (cases "show_digits i") simp_all
  with False \<open>show_digits i \<noteq> []\<close> show ?thesis by (simp add: show_int_def)
qed

lemma parse_number_show_int:
  assumes "ok_rest rest"
  shows "parse_number (show_int i @ rest) = Some (JNum i, rest)"
proof -
  have rest: "\<not> (rest \<noteq> [] \<and> hd rest \<in> {CHR ''.'', CHR ''e'', CHR ''E''})"
    using assms by (auto simp: ok_rest_def)
  show ?thesis
  proof (cases "i < 0")
    case True
    let ?ds = "show_digits (- i)"
    from True have p: "?ds \<noteq> []" "list_all is_digit ?ds" "digits_val ?ds = - i"
      "hd ?ds = CHR ''0'' \<longrightarrow> tl ?ds = []"
      using show_digits_props [of "- i"] by simp_all
    have s: "show_int i @ rest = CHR ''-'' # ?ds @ rest"
      using True by (simp add: show_int_def)
    show ?thesis
      unfolding s parse_number_def
      using p rest digits_then_rest [OF p(2) assms] by (simp add: Let_def)
  next
    case False
    let ?ds = "show_digits i"
    from False have p: "?ds \<noteq> []" "list_all is_digit ?ds" "digits_val ?ds = i"
      "hd ?ds = CHR ''0'' \<longrightarrow> tl ?ds = []"
      using show_digits_props [of i] by simp_all
    have "is_digit (hd ?ds)"
      using p(1,2) by (cases ?ds) simp_all
    then have nm: "hd ?ds \<noteq> CHR ''-''"
      by (auto simp: is_digit_def)
    have s: "show_int i @ rest = ?ds @ rest"
      using False by (simp add: show_int_def)
    have h: "hd (?ds @ rest) = hd ?ds" "?ds @ rest \<noteq> []"
      using p(1) by simp_all
    show ?thesis
      unfolding s parse_number_def
      using p rest nm h digits_then_rest [OF p(2) assms] by (simp add: Let_def)
  qed
qed

subsection \<open>Values\<close>

lemma skip_ws_no_ws: "\<not> json_ws c \<Longrightarrow> skip_ws (c # r) = c # r"
  by (simp add: skip_ws_def)

lemma value_start_facts:
  assumes "value_start c"
  shows "\<not> json_ws c" "c \<noteq> CHR '']''" "c \<noteq> CHR ''}''" "c \<noteq> CHR '',''" "c \<noteq> CHR '':''"
  using assms by (auto simp: value_start_def json_ws_def is_digit_def)

lemma element_text_start:
  "\<exists>c t. element_text (SerializeJSONProperty v) = c # t \<and> value_start c"
proof (cases v)
  case (JNum i)
  obtain c t where ct: "show_int i = c # t"
    using show_int_head [of i] by (cases "show_int i") auto
  with show_int_head [of i] have "value_start c"
    by (auto simp: value_start_def)
  with ct JNum show ?thesis by (simp add: element_text_def)
qed (simp_all add: element_text_def value_start_def QuoteJSONString_def)

lemma parse_value_null:
  "parse_value (Suc n) (''null'' @ rest) = Some (JNull, rest)"
  by (simp add: skip_ws_def json_ws_def is_digit_def)

lemma parse_value_true:
  "parse_value (Suc n) (''true'' @ rest) = Some (JBool True, rest)"
  by (simp add: skip_ws_def json_ws_def is_digit_def)

lemma parse_value_false:
  "parse_value (Suc n) (''false'' @ rest) = Some (JBool False, rest)"
  by (simp add: skip_ws_def json_ws_def is_digit_def)

lemma parse_value_string:
  "parse_value (Suc n) (QuoteJSONString s @ rest) = Some (JStr s, rest)"
  by (simp add: QuoteJSONString_def skip_ws_def json_ws_def parse_chars_quote_units)

lemma parse_value_number:
  assumes "ok_rest rest"
  shows "parse_value (Suc n) (show_int i @ rest) = Some (JNum i, rest)"
proof -
  obtain c t where ct: "show_int i = c # t"
    using show_int_head [of i] by (cases "show_int i") auto
  with show_int_head [of i] have h: "c = CHR ''-'' \<or> is_digit c" by simp
  then have nw: "\<not> json_ws c" and ne: "c \<noteq> CHR ''[''" "c \<noteq> CHR ''{''" "c \<noteq> CHR 0x22"
    by (auto simp: json_ws_def is_digit_def)
  have "parse_value (Suc n) (c # t @ rest) = parse_number (c # t @ rest)"
    using h nw ne by (simp add: skip_ws_no_ws)
  then show ?thesis
    using parse_number_show_int [OF assms, of i] by (simp add: ct)
qed

lemma parse_value_empty_array:
  "parse_value (Suc n) (''[]'' @ rest) = Some (JArr [], rest)"
  by (simp add: skip_ws_def json_ws_def)

lemma parse_value_empty_object:
  "parse_value (Suc n) (''{}'' @ rest) = Some (JObj [], rest)"
  by (simp add: skip_ws_def json_ws_def)

lemma parse_value_array:
  assumes "value_start c"
  shows "parse_value (Suc n) (CHR ''['' # c # r) =
     (case parse_elements n (c # r) of None \<Rightarrow> None | Some (vs, r2) \<Rightarrow> Some (JArr vs, r2))"
  using value_start_facts [OF assms]
  by (simp add: skip_ws_def json_ws_def)

lemma parse_value_object:
  assumes "value_start c"
  shows "parse_value (Suc n) (CHR ''{'' # c # r) =
     (case parse_members n (c # r) of None \<Rightarrow> None | Some (ps, r2) \<Rightarrow> Some (JObj ps, r2))"
  using value_start_facts [OF assms]
  by (simp add: skip_ws_def json_ws_def)

lemma parse_elements_last:
  assumes "parse_value n (t @ CHR '']'' # rest) = Some (w, CHR '']'' # rest)"
  shows "parse_elements (Suc n) (t @ CHR '']'' # rest) = Some ([w], rest)"
  using assms by (simp add: skip_ws_def json_ws_def)

lemma parse_elements_more:
  assumes "parse_value n (t @ CHR '','' # tl1) = Some (w, CHR '','' # tl1)"
  shows "parse_elements (Suc n) (t @ CHR '','' # tl1) = cons_result w (parse_elements n tl1)"
  using assms by (simp add: skip_ws_def json_ws_def)

lemma parse_members_last:
  assumes "parse_value n (t @ CHR ''}'' # rest) = Some (w, CHR ''}'' # rest)"
  shows "parse_members (Suc n) (QuoteJSONString k @ CHR '':'' # t @ CHR ''}'' # rest) =
         Some ([(k, w)], rest)"
  using assms
  by (simp add: QuoteJSONString_def skip_ws_def json_ws_def parse_chars_quote_units)

lemma parse_members_more:
  assumes "parse_value n (t @ CHR '','' # tl1) = Some (w, CHR '','' # tl1)"
  shows "parse_members (Suc n) (QuoteJSONString k @ CHR '':'' # t @ CHR '','' # tl1) =
         (case parse_members n tl1 of
            None \<Rightarrow> None
          | Some (ps, r5) \<Rightarrow> Some (add_member k w ps, r5))"
  using assms
  by (simp add: QuoteJSONString_def skip_ws_def json_ws_def parse_chars_quote_units)

lemma serialize_None_iff: "SerializeJSONProperty v = None \<longleftrightarrow> v = JUndefined"
  by (cases v) simp_all

lemma image_members_empty: "serialize_members ps = [] \<Longrightarrow> image_members ps = []"
  by (induction ps) (auto simp: serialize_None_iff split: option.splits)

lemma image_members_keys: "fst ` set (image_members ps) \<subseteq> fst ` set ps"
  by (induction ps) (force split: if_splits)+

lemma add_member_fresh:
  assumes "k \<notin> fst ` set ps"
  shows "add_member k w (image_members ps) = (k, w) # image_members ps"
proof -
  from assms image_members_keys [of ps] have "k \<notin> fst ` set (image_members ps)"
    by blast
  then have "map_of (image_members ps) k = None"
    by (simp add: map_of_eq_None_iff)
  then show ?thesis by (simp add: add_member_def)
qed

lemma elements_start:
  "vs \<noteq> [] \<Longrightarrow> \<exists>c j. join_comma (serialize_elements vs) = c # j \<and> value_start c"
proof (cases vs)
  case Nil
  assume "vs \<noteq> []"
  with Nil show ?thesis by simp
next
  case (Cons v us)
  obtain c t where ct: "element_text (SerializeJSONProperty v) = c # t" "value_start c"
    using element_text_start by blast
  then show ?thesis
    using Cons by (cases us) auto
qed

lemma member_texts_quoted:
  "m \<in> set (serialize_members ps) \<Longrightarrow> \<exists>j. m = CHR 0x22 # j"
  by (induction ps) (auto simp: QuoteJSONString_def split: option.splits)

lemma members_start:
  "serialize_members ps \<noteq> [] \<Longrightarrow>
   \<exists>c j. join_comma (serialize_members ps) = c # j \<and> value_start c"
proof -
  assume "serialize_members ps \<noteq> []"
  then obtain m ms where m: "serialize_members ps = m # ms"
    by (cases "serialize_members ps") auto
  have "m \<in> set (serialize_members ps)" by (simp add: m)
  then obtain j where "m = CHR 0x22 # j"
    using member_texts_quoted by blast
  then show ?thesis
    using m by (cases ms) (auto simp: value_start_def)
qed

lemma roundtrip_mutual:
  "distinct_keys v \<longrightarrow>
     (\<forall>n rest. nodes v \<le> n \<longrightarrow> ok_rest rest \<longrightarrow>
        parse_value n (element_text (SerializeJSONProperty v) @ rest) = Some (json_image v, rest))"
  "vs \<noteq> [] \<longrightarrow> distinct_keys_elements vs \<longrightarrow>
     (\<forall>n rest. nodes_elements vs \<le> n \<longrightarrow>
        parse_elements n (join_comma (serialize_elements vs) @ CHR '']'' # rest) =
          Some (image_elements vs, rest))"
  "serialize_members ps \<noteq> [] \<longrightarrow> distinct (map fst ps) \<longrightarrow> distinct_keys_members ps \<longrightarrow>
     (\<forall>n rest. nodes_members ps \<le> n \<longrightarrow>
        parse_members n (join_comma (serialize_members ps) @ CHR ''}'' # rest) =
          Some (image_members ps, rest))"
proof (induction v and vs and ps
    rule: SerializeJSONProperty_serialize_elements_serialize_members.induct)
  case 1
  show ?case
  proof (intro impI allI)
    fix n rest assume "nodes JUndefined \<le> n"
    then obtain m where "n = Suc m" by (cases n) auto
    then show "parse_value n (element_text (SerializeJSONProperty JUndefined) @ rest) =
        Some (json_image JUndefined, rest)"
      using parse_value_null [of m rest] by (simp add: element_text_def)
  qed
next
  case 2
  show ?case
  proof (intro impI allI)
    fix n rest assume "nodes JNull \<le> n"
    then obtain m where "n = Suc m" by (cases n) auto
    then show "parse_value n (element_text (SerializeJSONProperty JNull) @ rest) =
        Some (json_image JNull, rest)"
      using parse_value_null [of m rest] by (simp add: element_text_def)
  qed
next
  case (3 b)
  show ?case
  proof (intro impI allI)
    fix n rest assume "nodes (JBool b) \<le> n"
    then obtain m where "n = Suc m" by (cases n) auto
    then show "parse_value n (element_text (SerializeJSONProperty (JBool b)) @ rest) =
        Some (json_image (JBool b), rest)"
      using parse_value_true [of m rest] parse_value_false [of m rest]
      by (simp add: element_text_def)
  qed
next
  case (4 i)
  show ?case
  proof (intro impI allI)
    fix n rest assume "nodes (JNum i) \<le> n" and ok: "ok_rest rest"
    then obtain m where "n = Suc m" by (cases n) auto
    then show "parse_value n (element_text (SerializeJSONProperty (JNum i)) @ rest) =
        Some (json_image (JNum i), rest)"
      using parse_value_number [OF ok, of m i] by (simp add: element_text_def)
  qed
next
  case (5 s)
  show ?case
  proof (intro impI allI)
    fix n rest assume "nodes (JStr s) \<le> n"
    then obtain m where "n = Suc m" by (cases n) auto
    then show "parse_value n (element_text (SerializeJSONProperty (JStr s)) @ rest) =
        Some (json_image (JStr s), rest)"
      using parse_value_string [of m s rest] by (simp add: element_text_def)
  qed
next
  case (6 vs)
  show ?case
  proof (intro impI allI)
    fix n rest
    assume dk: "distinct_keys (JArr vs)" and fuel: "nodes (JArr vs) \<le> n"
    from fuel obtain m where n: "n = Suc m" and m: "nodes_elements vs \<le> m"
      by (cases n) auto
    show "parse_value n (element_text (SerializeJSONProperty (JArr vs)) @ rest) =
        Some (json_image (JArr vs), rest)"
    proof (cases "vs = []")
      case True
      then show ?thesis
        using parse_value_empty_array [of m rest] by (simp add: element_text_def n)
    next
      case False
      obtain c j where cj: "join_comma (serialize_elements vs) = c # j" "value_start c"
        using elements_start [OF False] by blast
      have "parse_elements m (join_comma (serialize_elements vs) @ CHR '']'' # rest) =
          Some (image_elements vs, rest)"
        using 6 False dk m by simp
      then show ?thesis
        using parse_value_array [OF cj(2), of m "j @ CHR '']'' # rest"]
        by (simp add: element_text_def n cj)
    qed
  qed
next
  case (7 ps)
  show ?case
  proof (intro impI allI)
    fix n rest
    assume dk: "distinct_keys (JObj ps)" and fuel: "nodes (JObj ps) \<le> n"
    from fuel obtain m where n: "n = Suc m" and m: "nodes_members ps \<le> m"
      by (cases n) auto
    show "parse_value n (element_text (SerializeJSONProperty (JObj ps)) @ rest) =
        Some (json_image (JObj ps), rest)"
    proof (cases "serialize_members ps = []")
      case True
      then show ?thesis
        using parse_value_empty_object [of m rest]
        by (simp add: element_text_def n image_members_empty)
    next
      case False
      obtain c j where cj: "join_comma (serialize_members ps) = c # j" "value_start c"
        using members_start [OF False] by blast
      have "parse_members m (join_comma (serialize_members ps) @ CHR ''}'' # rest) =
          Some (image_members ps, rest)"
        using 7 False dk m by simp
      then show ?thesis
        using parse_value_object [OF cj(2), of m "j @ CHR ''}'' # rest"]
        by (simp add: element_text_def n cj)
    qed
  qed
next
  case 8
  show ?case by simp
next
  case (9 v vs)
  show ?case
  proof (intro impI allI)
    fix n rest
    assume dk: "distinct_keys_elements (v # vs)" and fuel: "nodes_elements (v # vs) \<le> n"
    from fuel obtain m where n: "n = Suc m" and mv: "nodes v \<le> m"
      and ms: "nodes_elements vs \<le> m"
      by (cases n) auto
    let ?t = "element_text (SerializeJSONProperty v)"
    from 9(1) dk mv
    have pv: "ok_rest r \<Longrightarrow> parse_value m (?t @ r) = Some (json_image v, r)" for r
      by simp
    show "parse_elements n (join_comma (serialize_elements (v # vs)) @ CHR '']'' # rest) =
        Some (image_elements (v # vs), rest)"
    proof (cases vs)
      case Nil
      have "parse_value m (?t @ CHR '']'' # rest) = Some (json_image v, CHR '']'' # rest)"
        by (rule pv) (simp add: ok_rest_def)
      then show ?thesis
        using parse_elements_last [of m ?t rest "json_image v"] by (simp add: Nil n)
    next
      case (Cons u us)
      let ?tl1 = "join_comma (serialize_elements vs) @ CHR '']'' # rest"
      have "parse_value m (?t @ CHR '','' # ?tl1) = Some (json_image v, CHR '','' # ?tl1)"
        by (rule pv) (simp add: ok_rest_def)
      then have "parse_elements (Suc m) (?t @ CHR '','' # ?tl1) =
          cons_result (json_image v) (parse_elements m ?tl1)"
        by (rule parse_elements_more)
      moreover have "parse_elements m ?tl1 = Some (image_elements vs, rest)"
        using 9(2) dk ms Cons by simp
      ultimately show ?thesis
        by (simp add: Cons n cons_result_def)
    qed
  qed
next
  case 10
  show ?case by simp
next
  case (11 k v ps)
  show ?case
  proof (cases "SerializeJSONProperty v")
    case None
    then have u: "v = JUndefined" by (simp add: serialize_None_iff)
    show ?thesis
      using 11(2) [OF None] by (simp add: None u)
  next
    case (Some t)
    then have nu: "v \<noteq> JUndefined" by (auto simp: serialize_None_iff)
    show ?thesis
    proof (intro impI allI)
      fix n rest
      assume d: "distinct (map fst ((k, v) # ps))"
        and dk: "distinct_keys_members ((k, v) # ps)"
        and fuel: "nodes_members ((k, v) # ps) \<le> n"
      from fuel nu obtain m where n: "n = Suc m" and mv: "nodes v \<le> m"
        and ms: "nodes_members ps \<le> m"
        by (cases n) auto
      from 11(1) dk mv Some
      have pv: "ok_rest r \<Longrightarrow> parse_value m (t @ r) = Some (json_image v, r)" for r
        by (simp add: element_text_def)
      show "parse_members n (join_comma (serialize_members ((k, v) # ps)) @ CHR ''}'' # rest) =
          Some (image_members ((k, v) # ps), rest)"
      proof (cases "serialize_members ps")
        case Nil
        have "parse_value m (t @ CHR ''}'' # rest) = Some (json_image v, CHR ''}'' # rest)"
          by (rule pv) (simp add: ok_rest_def)
        then have "parse_members (Suc m) (QuoteJSONString k @ CHR '':'' # t @ CHR ''}'' # rest) =
            Some ([(k, json_image v)], rest)"
          by (rule parse_members_last)
        then show ?thesis
          using nu by (simp add: Some Nil n image_members_empty)
      next
        case (Cons u us)
        let ?tl1 = "join_comma (serialize_members ps) @ CHR ''}'' # rest"
        have "parse_value m (t @ CHR '','' # ?tl1) = Some (json_image v, CHR '','' # ?tl1)"
          by (rule pv) (simp add: ok_rest_def)
        then have "parse_members (Suc m) (QuoteJSONString k @ CHR '':'' # t @ CHR '','' # ?tl1) =
            (case parse_members m ?tl1 of
               None \<Rightarrow> None
             | Some (qs, r5) \<Rightarrow> Some (add_member k (json_image v) qs, r5))"
          by (rule parse_members_more)
        moreover have "parse_members m ?tl1 = Some (image_members ps, rest)"
          using 11(3) [OF Some] d dk ms Cons by simp
        moreover have "add_member k (json_image v) (image_members ps) =
            (k, json_image v) # image_members ps"
          using d by (intro add_member_fresh) simp
        ultimately show ?thesis
          using nu by (simp add: Some Cons n)
      qed
    qed
  qed
qed

subsection \<open>The bound on nested calls\<close>

lemma length_join_comma_Cons:
  "length (join_comma (t # ts)) =
     length t + (if ts = [] then 0 else Suc (length (join_comma ts)))"
  by (cases ts) simp_all

lemma serialize_elements_empty: "serialize_elements vs = [] \<longleftrightarrow> vs = []"
  by (cases vs) simp_all

lemma nodes_members_empty: "serialize_members ps = [] \<Longrightarrow> nodes_members ps = 0"
  by (induction ps) (auto simp: serialize_None_iff split: option.splits)

lemma nodes_le_length:
  "nodes v \<le> length (element_text (SerializeJSONProperty v))"
  "nodes_elements vs \<le> Suc (length (join_comma (serialize_elements vs)))"
  "nodes_members ps \<le> Suc (length (join_comma (serialize_members ps)))"
proof (induction v and vs and ps
    rule: SerializeJSONProperty_serialize_elements_serialize_members.induct)
  case (4 i)
  have "show_int i \<noteq> []" using show_int_head by blast
  then have "1 \<le> length (show_int i)" by (cases "show_int i") simp_all
  then show ?case by (simp add: element_text_def)
next
  case (9 v vs)
  then show ?case
    by (auto simp: length_join_comma_Cons serialize_elements_empty simp del: join_comma.simps)
next
  case (11 k v ps)
  show ?case
  proof (cases "SerializeJSONProperty v")
    case None
    then have "v = JUndefined" by (simp add: serialize_None_iff)
    with 11(2) [OF None] None show ?thesis by simp
  next
    case (Some t)
    then have "v \<noteq> JUndefined" by (auto simp: serialize_None_iff)
    with 11(1) 11(3) [OF Some] Some show ?thesis
      by (auto simp: length_join_comma_Cons element_text_def nodes_members_empty
          simp del: join_comma.simps)
  qed
qed (simp_all add: element_text_def QuoteJSONString_def)

lemma JSON_parse_stringify:
  assumes "distinct_keys v" "JSON_stringify v = Some t"
  shows "JSON_parse t = Inr (json_image v)"
proof -
  from assms(2) have t: "element_text (SerializeJSONProperty v) = t"
    by (simp add: JSON_stringify_def element_text_def)
  have "nodes v \<le> Suc (length t)"
    using nodes_le_length(1) [of v] by (simp add: t)
  moreover have "ok_rest []" by (simp add: ok_rest_def)
  ultimately have "parse_value (Suc (length t))
      (element_text (SerializeJSONProperty v) @ []) = Some (json_image v, [])"
    using roundtrip_mutual(1) [of v] assms(1) by blast
  then have "parse_value (Suc (length t)) t = Some (json_image v, [])"
    by (simp only: t append_Nil2)
  then show ?thesis
    by (simp add: JSON_parse_def skip_ws_def del: parse_value.simps)
qed

subsection \<open>Entities\<close>

lemma those_map_view:
  assumes "\<And>x. f (g x) = Some x"
  shows "those (map (\<lambda>x. f (g x)) xs) = Some xs"
  by (induction xs) (simp_all add: assms)

lemma distinct_keys_elements_map:
  assumes "\<And>x. distinct_keys (g x)"
  shows "distinct_keys_elements (map g xs)"
  by (induction xs) (simp_all add: assms)

lemma image_elements_map: "image_elements (map g xs) = map (\<lambda>x. json_image (g x)) xs"
  by (induction xs) simp_all

lemma as_Course_image: "as_Course (json_image (course_value c)) = Some c"
  by (simp add: as_Course_def course_value_def get_prop_def)

lemma as_Note_image: "as_Note (json_image (note_value n)) = Some n"
  by (simp add: as_Note_def note_value_def get_prop_def)

lemma as_material_type_name: "as_material_type (JStr (material_type_name ty)) = Some ty"
  by (cases ty) (simp_all add: as_material_type_def)

lemma as_Material_image: "as_Material (json_image (material_value m)) = Some m"
  by (cases "noteId m")
    (simp_all add: as_Material_def material_value_def get_prop_def as_material_type_name)

lemma distinct_keys_entities:
  "distinct_keys (course_value c)" "distinct_keys (note_value n)"
  "distinct_keys (material_value m)"
  by (simp_all add: course_value_def note_value_def material_value_def split: option.splits)

lemma parse_saved_array:
  assumes "distinct_keys_elements vs"
  shows "parse_saved (Some (to_item (JSON_stringify (JArr vs)))) = Inr (JArr (image_elements vs))"
proof -
  obtain t where t: "JSON_stringify (JArr vs) = Some t" and ne: "t \<noteq> []"
    by (simp add: JSON_stringify_def)
  have "JSON_parse t = Inr (json_image (JArr vs))"
    using assms t by (intro JSON_parse_stringify) simp_all
  then show ?thesis
    using ne by (simp add: parse_saved_def truthy_def to_item_def t)
qed

lemma as_array_image:
  assumes "\<And>x. f (json_image (g x)) = Some x"
  shows "as_array f (JArr (image_elements (map g xs))) = Some xs"
  using those_map_view [of f "\<lambda>x. json_image (g x)" xs] assms
  by (simp add: as_array_def image_elements_map comp_def)


subsection \<open>Loading\<close>

lemma JSON_parse_error: "JSON_parse b = Inl e \<Longrightarrow> e = SyntaxError"
  by (cases "parse_value (Suc (length b)) b")
    (auto simp: JSON_parse_def simp del: parse_value.simps split: if_splits)

lemma parse_saved_error: "parse_saved saved = Inl e \<Longrightarrow> e = SyntaxError"
  by (auto simp: parse_saved_def dest: JSON_parse_error split: if_splits)

lemma JSON_parse_empty_array: "JSON_parse ''[]'' = Inr (JArr [])"
  by (simp add: JSON_parse_def skip_ws_def json_ws_def)

lemma parse_saved_absent:
  "saved = None \<or> saved = Some [] \<Longrightarrow> parse_saved saved = parse_saved (Some ''[]'')"
  by (auto simp: parse_saved_def truthy_def JSON_parse_empty_array)


text \<open>Two texts as the runtime writes and reads them.\<close>

lemma JSON_stringify_example:
  \<open>JSON_stringify (JArr [note_value N1, material_value matB]) =
     Some ''[{"id":"n1","courseId":"A","title":"Cell Structure","content":"membranes","updatedAt":2000},{"id":"m2","courseId":"B","name":"Syllabus PDF","url":"/files/syllabus.pdf","type":"File","addedAt":3001}]''\<close>
  by code_simp

lemma JSON_parse_example:
  \<open>JSON_parse '' [ {"a" : "xy", "b":[1, -2,true,null],"a":false} ] '' =
     Inr (JArr [JObj [(''a'', JBool False), (''b'', JArr [JNum 1, JNum (- 2), JBool True, JNull])]])\<close>
  by code_simp

text \<open>
  Claim C4. Saving a store and loading from the resulting storage succeeds, whatever the
  storage held before. Each of the three loaded values is the array of the saved objects
  in the same order, with the same properties except those that held \<open>undefined\<close>; read at
  the entity types it is the collection that was saved: the same courses, notes and
  materials, field for field.
\<close>

theorem load_save_roundtrip:
  "load (save s st) =
     Inr (json_image (JArr (map course_value (courses s))),
          json_image (JArr (map note_value (app_notes s))),
          json_image (JArr (map material_value (materials s))))
   \<and> as_array as_Course (json_image (JArr (map course_value (courses s)))) = Some (courses s)
   \<and> as_array as_Note (json_image (JArr (map note_value (app_notes s)))) = Some (app_notes s)
   \<and> as_array as_Material (json_image (JArr (map material_value (materials s)))) =
       Some (materials s)"
proof -
  let ?cs = "map course_value (courses s)"
  let ?ns = "map note_value (app_notes s)"
  let ?ms = "map material_value (materials s)"
  have g: "getItem (save s st) ''uni_courses'' = Some (to_item (JSON_stringify (JArr ?cs)))"
    "getItem (save s st) ''uni_notes'' = Some (to_item (JSON_stringify (JArr ?ns)))"
    "getItem (save s st) ''uni_materials'' = Some (to_item (JSON_stringify (JArr ?ms)))"
    by (simp_all add: save_def setItem_def getItem_def Let_def)
  have p: "parse_saved (Some (to_item (JSON_stringify (JArr ?cs)))) =
      Inr (JArr (image_elements ?cs))"
    "parse_saved (Some (to_item (JSON_stringify (JArr ?ns)))) = Inr (JArr (image_elements ?ns))"
    "parse_saved (Some (to_item (JSON_stringify (JArr ?ms)))) = Inr (JArr (image_elements ?ms))"
    by (intro parse_saved_array distinct_keys_elements_map distinct_keys_entities)+
  have l: "load (save s st) =
      Inr (JArr (image_elements ?cs), JArr (image_elements ?ns), JArr (image_elements ?ms))"
    by (simp add: load_def Let_def g p)
  have v: "as_array as_Course (JArr (image_elements ?cs)) = Some (courses s)"
    "as_array as_Note (JArr (image_elements ?ns)) = Some (app_notes s)"
    "as_array as_Material (JArr (image_elements ?ms)) = Some (materials s)"
    by (intro as_array_image as_Course_image as_Note_image as_Material_image)+
  show ?thesis
    using l v by simp
qed

theorem load_save_roundtrip_witness:
  "load (save example_store Map.empty) =
     Inr (JArr (map course_value [courseA, courseB]),
          JArr (map note_value [N1, NB, N2, N3]),
          JArr [material_value matA,
                JObj [(''id'', JStr ''m2''), (''courseId'', JStr ''B''),
                      (''name'', JStr ''Syllabus PDF''), (''url'', JStr ''/files/syllabus.pdf''),
                      (''type'', JStr ''File''), (''addedAt'', JNum 3001)]])
   \<and> as_array as_Material
         (JArr [material_value matA,
                JObj [(''id'', JStr ''m2''), (''courseId'', JStr ''B''),
                      (''name'', JStr ''Syllabus PDF''), (''url'', JStr ''/files/syllabus.pdf''),
                      (''type'', JStr ''File''), (''addedAt'', JNum 3001)]]) = Some [matA, matB]"
  using load_save_roundtrip [of example_store Map.empty]
  by (simp add: example_store_def course_value_def note_value_def material_value_def
      matA_def matB_def)

text \<open>
  Claim C5, as stated, lets the parse failure of every present, malformed blob propagate.
  The empty string is not a JSON text, yet an item holding it is skipped like a missing
  one and the load succeeds with empty collections.
\<close>

theorem load_empty_blob_counterexample:
  "getItem (setItem ''uni_courses'' '''' Map.empty) ''uni_courses'' = Some ''''
   \<and> JSON_parse '''' = Inl SyntaxError
   \<and> load (setItem ''uni_courses'' '''' Map.empty) = Inr (JArr [], JArr [], JArr [])"
  by (simp add: load_def getItem_def setItem_def parse_saved_def truthy_def JSON_parse_def
      skip_ws_def)

text \<open>
  Claim C5, amended. Loading reads the three keys \<open>uni_courses\<close>, \<open>uni_notes\<close> and
  \<open>uni_materials\<close> and nothing else. A key that is absent, or holds the empty string,
  counts exactly like a stored empty array and raises no error; with all three absent the
  load gives three empty collections. When the load succeeds, each collection is the parse
  of its own item. When an item is a non-empty text that \<open>JSON.parse\<close> rejects, the load
  fails with that \<open>SyntaxError\<close>.
\<close>

theorem load_three_keys:
  "((\<forall>k \<in> storage_keys. getItem st k = getItem st' k) \<longrightarrow> load st = load st')
   \<and> (k \<in> storage_keys \<and> (getItem st k = None \<or> getItem st k = Some []) \<longrightarrow>
        load st = load (setItem k ''[]'' st))
   \<and> ((\<forall>k \<in> storage_keys. getItem st k = None) \<longrightarrow>
        load st = Inr (JArr [], JArr [], JArr []))
   \<and> (load st = Inr (cv, nv, mv) \<longrightarrow>
        parse_saved (getItem st ''uni_courses'') = Inr cv
        \<and> parse_saved (getItem st ''uni_notes'') = Inr nv
        \<and> parse_saved (getItem st ''uni_materials'') = Inr mv)
   \<and> (k \<in> storage_keys \<and> getItem st k = Some b \<and> b \<noteq> [] \<and> JSON_parse b = Inl e \<longrightarrow>
        load st = Inl SyntaxError)"
proof -
  have keys: "k \<in> storage_keys \<Longrightarrow>
      k = ''uni_courses'' \<or> k = ''uni_notes'' \<or> k = ''uni_materials''" for k
    by (simp add: storage_keys_def)
  have ld: "load st =
      (case parse_saved (st ''uni_courses'') of
         Inl e \<Rightarrow> Inl e
       | Inr cs \<Rightarrow>
           (case parse_saved (st ''uni_notes'') of
              Inl e \<Rightarrow> Inl e
            | Inr ns \<Rightarrow>
                (case parse_saved (st ''uni_materials'') of
                   Inl e \<Rightarrow> Inl e
                 | Inr ms \<Rightarrow> Inr (cs, ns, ms))))" for st
    by (simp add: load_def getItem_def)
  have only_syntax: "load st = Inl e' \<Longrightarrow> e' = SyntaxError" for e'
    unfolding ld
    by (cases "parse_saved (st ''uni_courses'')"; cases "parse_saved (st ''uni_notes'')";
        cases "parse_saved (st ''uni_materials'')")
      (auto dest: parse_saved_error)
  have c1: "(\<forall>k \<in> storage_keys. getItem st k = getItem st' k) \<longrightarrow> load st = load st'"
  proof
    assume "\<forall>k \<in> storage_keys. getItem st k = getItem st' k"
    then have e: "st ''uni_courses'' = st' ''uni_courses''" "st ''uni_notes'' = st' ''uni_notes''"
      "st ''uni_materials'' = st' ''uni_materials''"
      by (simp_all add: storage_keys_def getItem_def)
    show "load st = load st'"
      unfolding ld e ..
  qed
  have c2: "k \<in> storage_keys \<and> (getItem st k = None \<or> getItem st k = Some []) \<longrightarrow>
        load st = load (setItem k ''[]'' st)"
  proof
    assume a: "k \<in> storage_keys \<and> (getItem st k = None \<or> getItem st k = Some [])"
    then have p: "parse_saved (st k) = parse_saved (Some ''[]'')"
      using parse_saved_absent [of "st k"] by (simp add: getItem_def)
    from a have "k = ''uni_courses'' \<or> k = ''uni_notes'' \<or> k = ''uni_materials''"
      by (simp add: keys)
    then show "load st = load (setItem k ''[]'' st)"
    proof (elim disjE)
      assume "k = ''uni_courses''"
      with p show ?thesis by (simp add: ld setItem_def cong: sum.case_cong)
    next
      assume "k = ''uni_notes''"
      with p show ?thesis by (simp add: ld setItem_def cong: sum.case_cong)
    next
      assume "k = ''uni_materials''"
      with p show ?thesis by (simp add: ld setItem_def cong: sum.case_cong)
    qed
  qed
  have c3: "(\<forall>k \<in> storage_keys. getItem st k = None) \<longrightarrow>
        load st = Inr (JArr [], JArr [], JArr [])"
    by (simp add: ld storage_keys_def getItem_def parse_saved_def truthy_def)
  have c4: "load st = Inr (cv, nv, mv) \<longrightarrow>
        parse_saved (getItem st ''uni_courses'') = Inr cv
        \<and> parse_saved (getItem st ''uni_notes'') = Inr nv
        \<and> parse_saved (getItem st ''uni_materials'') = Inr mv"
    unfolding ld getItem_def
    by (cases "parse_saved (st ''uni_courses'')"; cases "parse_saved (st ''uni_notes'')";
        cases "parse_saved (st ''uni_materials'')") simp_all
  have c5: "k \<in> storage_keys \<and> getItem st k = Some b \<and> b \<noteq> [] \<and> JSON_parse b = Inl e \<longrightarrow>
        load st = Inl SyntaxError"
  proof
    assume a: "k \<in> storage_keys \<and> getItem st k = Some b \<and> b \<noteq> [] \<and> JSON_parse b = Inl e"
    then have f: "parse_saved (st k) = Inl e"
      by (simp add: parse_saved_def truthy_def getItem_def)
    from a have "k = ''uni_courses'' \<or> k = ''uni_notes'' \<or> k = ''uni_materials''"
      by (simp add: keys)
    then have "\<exists>e'. load st = Inl e'"
    proof (elim disjE)
      assume "k = ''uni_courses''"
      with f show ?thesis by (simp add: ld)
    next
      assume "k = ''uni_notes''"
      with f show ?thesis
        by (cases "parse_saved (st ''uni_courses'')") (simp_all add: ld)
    next
      assume "k = ''uni_materials''"
      with f show ?thesis
        by (cases "parse_saved (st ''uni_courses'')"; cases "parse_saved (st ''uni_notes'')")
          (simp_all add: ld)
    qed
    then obtain e' where l: "load st = Inl e'" by blast
    with only_syntax [of e'] show "load st = Inl SyntaxError" by simp
  qed
  from c1 c2 c3 c4 c5 show ?thesis by blast
qed


theorem load_three_keys_witness:
  "load Map.empty = Inr (JArr [], JArr [], JArr [])
   \<and> JSON_parse ''[1,'' = Inl SyntaxError
   \<and> load (setItem ''uni_notes'' ''[1,'' Map.empty) = Inl SyntaxError
   \<and> load (setItem ''uni_notes'' ''[1]'' Map.empty) = Inr (JArr [], JArr [JNum 1], JArr [])"
proof -
  have e: "\<forall>k \<in> storage_keys. getItem Map.empty k = None"
    by (simp add: getItem_def)
  have a: "load Map.empty = Inr (JArr [], JArr [], JArr [])"
    using load_three_keys [of Map.empty Map.empty] e by blast
  have p: "JSON_parse ''[1,'' = Inl SyntaxError"
    by code_simp
  have k: "''uni_notes'' \<in> storage_keys
      \<and> getItem (setItem ''uni_notes'' ''[1,'' Map.empty) ''uni_notes'' = Some ''[1,''
      \<and> ''[1,'' \<noteq> []"
    by (simp add: storage_keys_def getItem_def setItem_def)
  have b: "load (setItem ''uni_notes'' ''[1,'' Map.empty) = Inl SyntaxError"
    using load_three_keys [of "setItem ''uni_notes'' ''[1,'' Map.empty" _ "''uni_notes''" _ _ _
        "''[1,''" SyntaxError] k p
    by blast
  have c: "load (setItem ''uni_notes'' ''[1]'' Map.empty) = Inr (JArr [], JArr [JNum 1], JArr [])"
    by code_simp
  from a p b c show ?thesis by simp
qed

end
